theory Spec2Isabelle
  imports Main
begin

section \<open>The host runtime as seen by pycosat.c\<close>

text \<open>
  The binding is C code against two collaborators: the CPython runtime and the picosat
  engine. Both are modelled by explicit state. Python objects are values of \<open>pyobj\<close>;
  \<open>PyNULL\<close> is the empty slot of a list that \<open>PyList_New\<close> has just created. The objects
  the caller owns live in a store \<open>objs\<close> from addresses to objects, so that a later
  mutation by the caller is an update of that store.
\<close>

datatype pyobj = PyLong int | PyList "pyobj list" | PyUnicode string | PyOther | PyNULL

datatype pyexc = TypeError | ValueError | OverflowError | MemoryError | SystemError | IndexError

type_synonym pyerr = "pyexc \<times> string \<times> int list"

text \<open>
  \<open>err\<close> is the interpreter's error indicator. \<open>alloc_fail\<close> lists the outcomes of the
  coming allocation requests to the host (\<open>True\<close>: the request fails and yields NULL;
  once the list is used up every request succeeds). \<open>blocks\<close> are the live buffers of
  \<open>PyMem_Malloc\<close>, \<open>mallocs\<close> and \<open>frees\<close> count the successful calls of
  \<open>PyMem_Malloc\<close> and \<open>PyMem_Free\<close>. \<open>minits\<close>, \<open>resets\<close> and \<open>sat_calls\<close> count the
  calls of \<open>picosat_minit\<close>, \<open>picosat_reset\<close> and \<open>picosat_sat\<close>. \<open>fault\<close> records
  undefined behaviour of C: an access outside a buffer, or freeing a block that is
  not live.
\<close>

record runtime =
  objs :: "nat \<Rightarrow> pyobj"
  err :: "pyerr option"
  alloc_fail :: "bool list"
  blocks :: "nat \<Rightarrow> int list option"
  mallocs :: nat
  frees :: nat
  minits :: nat
  resets :: nat
  sat_calls :: nat
  fault :: bool

definition PyErr_SetString :: "runtime \<Rightarrow> pyexc \<Rightarrow> string \<Rightarrow> runtime" where
  "PyErr_SetString h exc msg = h\<lparr>err := Some (exc, msg, [])\<rparr>"

definition PyErr_Format :: "runtime \<Rightarrow> pyexc \<Rightarrow> string \<Rightarrow> int list \<Rightarrow> runtime" where
  "PyErr_Format h exc fmt args = h\<lparr>err := Some (exc, fmt, args)\<rparr>"

definition PyErr_NoMemory :: "runtime \<Rightarrow> runtime" where
  "PyErr_NoMemory h = h\<lparr>err := Some (MemoryError, [], [])\<rparr>"

definition host_alloc :: "runtime \<Rightarrow> bool \<times> runtime" where
  "host_alloc h =
     (case alloc_fail h of
        [] \<Rightarrow> (True, h)
      | f # fs \<Rightarrow> (\<not> f, h\<lparr>alloc_fail := fs\<rparr>))"

definition PyMem_Malloc :: "runtime \<Rightarrow> nat \<Rightarrow> nat option \<times> runtime" where
  "PyMem_Malloc h n =
     (case host_alloc h of
        (True, h1) \<Rightarrow>
          (Some (mallocs h1),
           h1\<lparr>blocks := (blocks h1)(mallocs h1 \<mapsto> replicate n 0),
              mallocs := Suc (mallocs h1)\<rparr>)
      | (False, h1) \<Rightarrow> (None, h1))"

definition PyMem_Free :: "runtime \<Rightarrow> nat \<Rightarrow> runtime" where
  "PyMem_Free h a =
     (case blocks h a of
        Some b \<Rightarrow> h\<lparr>blocks := (blocks h)(a := None), frees := Suc (frees h)\<rparr>
      | None \<Rightarrow> h\<lparr>fault := True\<rparr>)"

text \<open>Writing and reading \<open>mem[i]\<close> of the buffer at address \<open>a\<close>.\<close>

definition poke :: "runtime \<Rightarrow> nat \<Rightarrow> int \<Rightarrow> int \<Rightarrow> runtime" where
  "poke h a i v =
     (case blocks h a of
        Some b \<Rightarrow>
          if 0 \<le> i \<and> nat i < length b
          then h\<lparr>blocks := (blocks h)(a \<mapsto> b[nat i := v])\<rparr>
          else h\<lparr>fault := True\<rparr>
      | None \<Rightarrow> h\<lparr>fault := True\<rparr>)"

definition peek :: "runtime \<Rightarrow> nat \<Rightarrow> int \<Rightarrow> int" where
  "peek h a i =
     (case blocks h a of
        Some b \<Rightarrow> if 0 \<le> i \<and> nat i < length b then b ! nat i else 0
      | None \<Rightarrow> 0)"

definition PyList_New :: "runtime \<Rightarrow> nat \<Rightarrow> pyobj list option \<times> runtime" where
  "PyList_New h n =
     (case host_alloc h of
        (True, h1) \<Rightarrow> (Some (replicate n PyNULL), h1)
      | (False, h1) \<Rightarrow> (None, PyErr_NoMemory h1))"

definition PyList_GetItem :: "runtime \<Rightarrow> pyobj list \<Rightarrow> nat \<Rightarrow> pyobj option \<times> runtime" where
  "PyList_GetItem h items i =
     (if i < length items then (Some (items ! i), h)
      else (None, PyErr_SetString h IndexError ''list index out of range''))"

definition PyList_SetItem ::
  "runtime \<Rightarrow> pyobj list \<Rightarrow> int \<Rightarrow> pyobj \<Rightarrow> pyobj list option \<times> runtime" where
  "PyList_SetItem h items i x =
     (if 0 \<le> i \<and> nat i < length items then (Some (items[nat i := x]), h)
      else (None, PyErr_SetString h IndexError ''list assignment index out of range''))"

text \<open>
  \<open>PyInt_FromLong\<close>: the source does not test its result, and it is taken to succeed.
\<close>

definition PyInt_FromLong :: "int \<Rightarrow> pyobj" where
  "PyInt_FromLong n = PyLong n"

definition PyUnicode_FromString :: "runtime \<Rightarrow> string \<Rightarrow> pyobj option \<times> runtime" where
  "PyUnicode_FromString h s =
     (case host_alloc h of
        (True, h1) \<Rightarrow> (Some (PyUnicode s), h1)
      | (False, h1) \<Rightarrow> (None, PyErr_NoMemory h1))"

text \<open>
  \<open>PyLong_AsLong\<close> on a platform whose \<open>long\<close> has 64 bits: a Python integer outside
  the range yields \<open>-1\<close> with OverflowError set. The source then stores the \<open>long\<close>
  in an \<open>int\<close> of 32 bits, which keeps the low 32 bits (two's complement).
\<close>

definition PyLong_AsLong :: "runtime \<Rightarrow> int \<Rightarrow> int \<times> runtime" where
  "PyLong_AsLong h n =
     (if - (2 ^ 63) \<le> n \<and> n < 2 ^ 63 then (n, h)
      else (- 1, PyErr_SetString h OverflowError
                   ''Python int too large to convert to C long''))"

definition long_to_int :: "int \<Rightarrow> int" where
  "long_to_int l = (l + 2 ^ 31) mod 2 ^ 32 - 2 ^ 31"

section \<open>The engine\<close>

text \<open>
  Modelled from the spec: the picosat engine (picosat.c and picosat.h are included by
  pycosat.c and are not among the sources). Section 6 of the spec gives its contract:
  new, set_verbosity, reserve_variables, set_propagation_limit, add_literal and
  terminate_clause (adding 0), solve, variable_count, value_of, reset. The engine keeps
  the clauses it was given, the literals of the clause that is not yet terminated, the
  range \<open>1..max_var\<close> of the variables it has seen or was told to reserve, and the
  propagation limit when one is installed. An assignment exists only right after a
  solve that answered SATISFIABLE (section 4.4); adding a literal ends that state.
\<close>

datatype ps_state = READY | SAT | UNSAT | UNKNOWN

record PicoSAT =
  verbosity :: int
  max_var :: nat
  limit :: "nat option"
  added :: "int list list"
  pending :: "int list"
  state :: ps_state
  vals :: "int \<Rightarrow> int"

text \<open>Modelled from the spec: the three result codes of picosat.h.\<close>

definition PICOSAT_UNKNOWN :: int where "PICOSAT_UNKNOWN = 0"
definition PICOSAT_SATISFIABLE :: int where "PICOSAT_SATISFIABLE = 10"
definition PICOSAT_UNSATISFIABLE :: int where "PICOSAT_UNSATISFIABLE = 20"

text \<open>Modelled from the spec: new(allocator), counted in \<open>minits\<close>.\<close>

definition picosat_minit :: "runtime \<Rightarrow> PicoSAT \<times> runtime" where
  "picosat_minit h =
     (\<lparr>verbosity = 0, max_var = 0, limit = None, added = [], pending = [],
       state = READY, vals = (\<lambda>i. 0)\<rparr>,
      h\<lparr>minits := Suc (minits h)\<rparr>)"

text \<open>Modelled from the spec: set_verbosity.\<close>

definition picosat_set_verbosity :: "PicoSAT \<Rightarrow> int \<Rightarrow> PicoSAT" where
  "picosat_set_verbosity p v = p\<lparr>verbosity := v\<rparr>"

text \<open>Modelled from the spec: reserve_variables, which pre-sizes the variable table.\<close>

definition picosat_adjust :: "PicoSAT \<Rightarrow> int \<Rightarrow> PicoSAT" where
  "picosat_adjust p n = p\<lparr>max_var := max (max_var p) (nat \<bar>n\<bar>)\<rparr>"

text \<open>Modelled from the spec: set_propagation_limit.\<close>

definition picosat_set_propagation_limit :: "PicoSAT \<Rightarrow> nat \<Rightarrow> PicoSAT" where
  "picosat_set_propagation_limit p l = p\<lparr>limit := Some l\<rparr>"

text \<open>
  Modelled from the spec: add_literal and terminate_clause. Adding 0 closes the pending
  clause; adding a literal extends it and widens the variable range to its index.
\<close>

definition picosat_add :: "PicoSAT \<Rightarrow> int \<Rightarrow> PicoSAT" where
  "picosat_add p lit =
     (if lit = 0
      then p\<lparr>added := added p @ [pending p], pending := [], state := READY\<rparr>
      else p\<lparr>pending := pending p @ [lit],
             max_var := max (max_var p) (nat \<bar>lit\<bar>), state := READY\<rparr>)"

text \<open>Modelled from the spec: variable_count.\<close>

definition picosat_variables :: "PicoSAT \<Rightarrow> int" where
  "picosat_variables p = int (max_var p)"

text \<open>
  Modelled from the spec: value_of, 1 for true and -1 for false. Outside the
  SATISFIABLE state or the variable range there is no value, which is 0 here.
\<close>

definition picosat_deref :: "PicoSAT \<Rightarrow> int \<Rightarrow> int" where
  "picosat_deref p i =
     (if state p = SAT \<and> 1 \<le> i \<and> i \<le> int (max_var p) then vals p i else 0)"

text \<open>Modelled from the spec: reset, counted in \<open>resets\<close>.\<close>

definition picosat_reset :: "runtime \<Rightarrow> runtime" where
  "picosat_reset h = h\<lparr>resets := Suc (resets h)\<rparr>"

text \<open>
  The search itself is a parameter: a function from the engine's state to a result code
  and the values of the variables. \<open>picosat_sat\<close> runs it, counts the call and stores
  the outcome in the engine.
\<close>

type_synonym search = "PicoSAT \<Rightarrow> int \<times> (int \<Rightarrow> int)"

definition state_of :: "int \<Rightarrow> ps_state" where
  "state_of res =
     (if res = PICOSAT_SATISFIABLE then SAT
      else if res = PICOSAT_UNSATISFIABLE then UNSAT else UNKNOWN)"

definition picosat_sat :: "search \<Rightarrow> runtime \<Rightarrow> PicoSAT \<Rightarrow> int \<times> runtime \<times> PicoSAT" where
  "picosat_sat srch h p =
     (case srch p of
        (res, va) \<Rightarrow>
          (res, h\<lparr>sat_calls := Suc (sat_calls h)\<rparr>, p\<lparr>state := state_of res, vals := va\<rparr>))"

section \<open>The binding\<close>

subsection \<open>blocksol\<close>

text \<open>
  The two loops of \<open>blocksol\<close>, for \<open>i\<close> from its current value up to \<open>max_idx\<close>: the
  first stores the polarity of every variable in the buffer, the second adds the
  literal of the opposite sign.
\<close>

function blocksol_fill :: "runtime \<Rightarrow> PicoSAT \<Rightarrow> nat \<Rightarrow> int \<Rightarrow> int \<Rightarrow> runtime" where
  "blocksol_fill h p a max_idx i =
     (if i \<le> max_idx
      then blocksol_fill (poke h a i (if picosat_deref p i > 0 then 1 else - 1))
             p a max_idx (i + 1)
      else h)"
  by pat_completeness auto
termination
  by (relation "measure (\<lambda>(h, p, a, max_idx, i). nat (max_idx + 1 - i))") auto

function blocksol_add :: "runtime \<Rightarrow> PicoSAT \<Rightarrow> nat \<Rightarrow> int \<Rightarrow> int \<Rightarrow> PicoSAT" where
  "blocksol_add h p a max_idx i =
     (if i \<le> max_idx
      then blocksol_add h (picosat_add p (if peek h a i < 0 then i else - i))
             a max_idx (i + 1)
      else p)"
  by pat_completeness auto
termination
  by (relation "measure (\<lambda>(h, p, a, max_idx, i). nat (max_idx + 1 - i))") auto

text \<open>
  \<open>mem\<close> is the pointer the caller passes, by value: \<open>None\<close> is NULL. The buffer that
  \<open>blocksol\<close> allocates is known to \<open>blocksol\<close> only; the result is the status.
\<close>

definition blocksol :: "runtime \<Rightarrow> PicoSAT \<Rightarrow> nat option \<Rightarrow> int \<times> runtime \<times> PicoSAT" where
  "blocksol h p mem =
     (let max_idx = picosat_variables p in
      case (case mem of
              None \<Rightarrow> PyMem_Malloc h (nat (max_idx + 1))
            | Some a \<Rightarrow> (Some a, h)) of
        (None, h1) \<Rightarrow> (- 1, PyErr_NoMemory h1, p)
      | (Some a, h1) \<Rightarrow>
          (let h2 = blocksol_fill h1 p a max_idx 1;
               p2 = blocksol_add h2 p a max_idx 1
           in (0, h2, picosat_add p2 0)))"

subsection \<open>add_clause and add_clauses\<close>

function add_clause_loop ::
  "runtime \<Rightarrow> PicoSAT \<Rightarrow> pyobj list \<Rightarrow> nat \<Rightarrow> nat \<Rightarrow> int \<times> runtime \<times> PicoSAT" where
  "add_clause_loop h p items n i =
     (if i < n then
        (case PyList_GetItem h items i of
           (None, h1) \<Rightarrow> (- 1, h1, p)
         | (Some lit, h1) \<Rightarrow>
             (case lit of
                PyLong x \<Rightarrow>
                  (case PyLong_AsLong h1 x of
                     (l, h2) \<Rightarrow>
                       (let v = long_to_int l in
                        if v = 0
                        then (- 1, PyErr_SetString h2 ValueError
                                     ''non-zero interger expected'', p)
                        else add_clause_loop h2 (picosat_add p v) items n (i + 1)))
              | _ \<Rightarrow> (- 1, PyErr_SetString h1 TypeError ''interger expected'', p)))
      else (0, h, p))"
  by pat_completeness auto
termination
  by (relation "measure (\<lambda>(h, p, items, n, i). n - i)") auto

definition add_clause :: "runtime \<Rightarrow> PicoSAT \<Rightarrow> pyobj \<Rightarrow> int \<times> runtime \<times> PicoSAT" where
  "add_clause h p clause =
     (case clause of
        PyList items \<Rightarrow>
          (case add_clause_loop h p items (length items) 0 of
             (r, h1, p1) \<Rightarrow>
               if r < 0 then (- 1, h1, p1) else (0, h1, picosat_add p1 0))
      | _ \<Rightarrow> (- 1, PyErr_SetString h TypeError ''list expected'', p))"

function add_clauses_loop ::
  "runtime \<Rightarrow> PicoSAT \<Rightarrow> pyobj list \<Rightarrow> nat \<Rightarrow> nat \<Rightarrow> int \<times> runtime \<times> PicoSAT" where
  "add_clauses_loop h p items n i =
     (if i < n then
        (case PyList_GetItem h items i of
           (None, h1) \<Rightarrow> (- 1, h1, p)
         | (Some item, h1) \<Rightarrow>
             (case add_clause h1 p item of
                (r, h2, p2) \<Rightarrow>
                  if r < 0 then (- 1, h2, p2)
                  else add_clauses_loop h2 p2 items n (i + 1)))
      else (0, h, p))"
  by pat_completeness auto
termination
  by (relation "measure (\<lambda>(h, p, items, n, i). n - i)") auto

definition add_clauses :: "runtime \<Rightarrow> PicoSAT \<Rightarrow> pyobj \<Rightarrow> int \<times> runtime \<times> PicoSAT" where
  "add_clauses h p cls =
     (case cls of
        PyList items \<Rightarrow> add_clauses_loop h p items (length items) 0
      | _ \<Rightarrow> (- 1, PyErr_SetString h TypeError ''list expected'', p))"

subsection \<open>setup_picosat\<close>

text \<open>
  The arguments as \<open>PyArg_ParseTupleAndKeywords\<close> delivers them: the address of the
  clauses object, \<open>vars\<close> (default -1), \<open>verbose\<close> (default 0) and \<open>prop_limit\<close>
  (default 0). \<open>None\<close> stands for arguments that do not parse. Printing the problem
  when \<open>verbose\<close> is at least 2 writes to stdout only and has no part in the model.
\<close>

record call_args =
  clauses :: nat
  vars :: int
  verbose :: int
  prop_limit :: nat

definition setup_picosat :: "runtime \<Rightarrow> call_args option \<Rightarrow> PicoSAT option \<times> runtime" where
  "setup_picosat h args =
     (case args of
        None \<Rightarrow> (None, PyErr_SetString h TypeError ''(iter)solve'')
      | Some a \<Rightarrow>
          (case picosat_minit h of
             (p0, h1) \<Rightarrow>
               (let p1 = picosat_set_verbosity p0 (verbose a);
                    p2 = (if vars a \<noteq> - 1 then picosat_adjust p1 (vars a) else p1);
                    p3 = (if prop_limit a \<noteq> 0
                          then picosat_set_propagation_limit p2 (prop_limit a) else p2)
                in case add_clauses h1 p3 (objs h1 (clauses a)) of
                     (r, h2, p4) \<Rightarrow>
                       if r < 0 then (None, picosat_reset h2) else (Some p4, h2))))"

subsection \<open>get_solution and solve\<close>

function get_solution_loop ::
  "runtime \<Rightarrow> PicoSAT \<Rightarrow> pyobj list \<Rightarrow> int \<Rightarrow> int \<Rightarrow> pyobj option \<times> runtime" where
  "get_solution_loop h p items max_idx i =
     (if i \<le> max_idx then
        (let v = picosat_deref p i in
         case PyList_SetItem h items (i - 1) (PyInt_FromLong (v * i)) of
           (None, h1) \<Rightarrow> (None, picosat_reset h1)
         | (Some items', h1) \<Rightarrow> get_solution_loop h1 p items' max_idx (i + 1))
      else (Some (PyList items), h))"
  by pat_completeness auto
termination
  by (relation "measure (\<lambda>(h, p, items, max_idx, i). nat (max_idx + 1 - i))") auto

text \<open>
  The source asserts \<open>v == -1 || v == 1\<close> for every value it reads. The assertion is
  the engine's obligation (\<open>deref_total\<close> below) and does not change what is computed.
\<close>

definition get_solution :: "runtime \<Rightarrow> PicoSAT \<Rightarrow> pyobj option \<times> runtime" where
  "get_solution h p =
     (let max_idx = picosat_variables p in
      case PyList_New h (nat max_idx) of
        (None, h1) \<Rightarrow> (None, picosat_reset h1)
      | (Some items, h1) \<Rightarrow> get_solution_loop h1 p items max_idx 1)"

text \<open>
  \<open>solve\<close> releases the interpreter lock around \<open>picosat_sat\<close>; the lock has no
  meaning in a sequential model and is left out. The result is the returned object
  (\<open>None\<close> is NULL: the error indicator tells the exception).
\<close>

definition solve :: "search \<Rightarrow> runtime \<Rightarrow> call_args option \<Rightarrow> pyobj option \<times> runtime" where
  "solve srch h args =
     (case setup_picosat h args of
        (None, h1) \<Rightarrow> (None, h1)
      | (Some p, h1) \<Rightarrow>
          (case picosat_sat srch h1 p of
             (res, h2, p2) \<Rightarrow>
               (case (if res = PICOSAT_SATISFIABLE then get_solution h2 p2
                      else if res = PICOSAT_UNSATISFIABLE
                        then PyUnicode_FromString h2 ''UNSAT''
                      else if res = PICOSAT_UNKNOWN
                        then PyUnicode_FromString h2 ''UNKNOWN''
                      else (None, PyErr_Format h2 SystemError
                                    ''picosat return value: %d'' [res])) of
                  (result, h3) \<Rightarrow> (result, picosat_reset h3))))"

subsection \<open>The solution iterator\<close>

record soliterobject =
  picosat :: PicoSAT
  mem :: "nat option"

definition PyObject_GC_New :: "runtime \<Rightarrow> bool \<times> runtime" where
  "PyObject_GC_New h =
     (case host_alloc h of
        (True, h1) \<Rightarrow> (True, h1)
      | (False, h1) \<Rightarrow> (False, PyErr_NoMemory h1))"

definition itersolve :: "runtime \<Rightarrow> call_args option \<Rightarrow> soliterobject option \<times> runtime" where
  "itersolve h args =
     (case PyObject_GC_New h of
        (False, h1) \<Rightarrow> (None, h1)
      | (True, h1) \<Rightarrow>
          (case setup_picosat h1 args of
             (None, h2) \<Rightarrow> (None, h2)
           | (Some p, h2) \<Rightarrow> (Some \<lparr>picosat = p, mem = None\<rparr>, h2)))"

text \<open>
  \<open>soliter_next\<close>: the result \<open>None\<close> with no error set ends the iteration
  (StopIteration); with an error set it raises.
\<close>

definition soliter_next ::
  "search \<Rightarrow> runtime \<Rightarrow> soliterobject \<Rightarrow> pyobj option \<times> runtime \<times> soliterobject" where
  "soliter_next srch h it =
     (case picosat_sat srch h (picosat it) of
        (res, h1, p1) \<Rightarrow>
          if res = PICOSAT_SATISFIABLE then
            (case get_solution h1 p1 of
               (None, h2) \<Rightarrow>
                 (None, PyErr_SetString h2 SystemError ''failed to create list'',
                  it\<lparr>picosat := p1\<rparr>)
             | (Some result, h2) \<Rightarrow>
                 (case blocksol h2 p1 (mem it) of
                    (r, h3, p3) \<Rightarrow>
                      if r < 0 then (None, h3, it\<lparr>picosat := p3\<rparr>)
                      else (Some result, h3, it\<lparr>picosat := p3\<rparr>)))
          else if res = PICOSAT_UNSATISFIABLE \<or> res = PICOSAT_UNKNOWN then
            (None, h1, it\<lparr>picosat := p1\<rparr>)
          else
            (None, PyErr_Format h1 SystemError ''picosat return value: %d'' [res],
             it\<lparr>picosat := p1\<rparr>))"

definition soliter_dealloc :: "runtime \<Rightarrow> soliterobject \<Rightarrow> runtime" where
  "soliter_dealloc h it =
     (let h1 = (case mem it of Some a \<Rightarrow> PyMem_Free h a | None \<Rightarrow> h)
      in picosat_reset h1)"

definition soliter_traverse :: "soliterobject \<Rightarrow> int" where
  "soliter_traverse it = 0"

subsection \<open>The consumer of the iterator\<close>

text \<open>
  What a caller sees of one \<open>next()\<close>: an element, the end of the iteration (NULL with
  no error set), or an exception. \<open>soliter_advance srch n\<close> is a caller that asks
  \<open>n\<close> times and gives up at the first exception.
\<close>

datatype outcome = Yield pyobj | Stop | Raise pyerr

fun soliter_advance ::
  "search \<Rightarrow> nat \<Rightarrow> runtime \<Rightarrow> soliterobject \<Rightarrow> outcome list \<times> runtime \<times> soliterobject" where
  "soliter_advance srch 0 h it = ([], h, it)"
| "soliter_advance srch (Suc n) h it =
     (case soliter_next srch h it of
        (Some r, h1, it1) \<Rightarrow>
          (case soliter_advance srch n h1 it1 of
             (os, h2, it2) \<Rightarrow> (Yield r # os, h2, it2))
      | (None, h1, it1) \<Rightarrow>
          (case err h1 of
             None \<Rightarrow>
               (case soliter_advance srch n h1 it1 of
                  (os, h2, it2) \<Rightarrow> (Stop # os, h2, it2))
           | Some e \<Rightarrow> ([Raise e], h1, it1)))"

section \<open>Clauses, assignments and the engine's contract\<close>

subsection \<open>Clause sets as Python objects\<close>

definition py_clause :: "int list \<Rightarrow> pyobj" where
  "py_clause c = PyList (map PyLong c)"

definition py_clauses :: "int list list \<Rightarrow> pyobj" where
  "py_clauses cls = PyList (map py_clause cls)"

text \<open>
  A valid literal is a non-zero integer whose variable index fits the \<open>int\<close> of the
  engine's interface; a valid clause set is a list of lists of valid literals.
\<close>

definition valid_literal :: "int \<Rightarrow> bool" where
  "valid_literal l = (l \<noteq> 0 \<and> \<bar>l\<bar> < 2 ^ 31)"

definition valid_clauses :: "int list list \<Rightarrow> bool" where
  "valid_clauses cls = (\<forall>c \<in> set cls. \<forall>l \<in> set c. valid_literal l)"

text \<open>The integers of a returned list, when the object is a list of integers.\<close>

fun long_of :: "pyobj \<Rightarrow> int option" where
  "long_of (PyLong n) = Some n"
| "long_of _ = None"

fun ints_of :: "pyobj \<Rightarrow> int list option" where
  "ints_of (PyList items) =
     (if list_all (\<lambda>x. long_of x \<noteq> None) items then Some (map (\<lambda>x. the (long_of x)) items)
      else None)"
| "ints_of _ = None"

subsection \<open>Truth of clauses under an assignment\<close>

text \<open>
  An assignment is the list a solution is returned as: position \<open>k\<close> holds \<open>k+1\<close> when
  variable \<open>k+1\<close> is true and \<open>-(k+1)\<close> when it is false. A positive literal is true
  when its variable is, a negative one when its variable is false; a clause is the
  disjunction of its literals, a clause set the conjunction of its clauses.
\<close>

definition var_value :: "int list \<Rightarrow> int \<Rightarrow> bool option" where
  "var_value sol i =
     (if 1 \<le> i \<and> i \<le> int (length sol) then Some (0 < sol ! nat (i - 1)) else None)"

definition lit_true :: "int list \<Rightarrow> int \<Rightarrow> bool" where
  "lit_true sol l = (l \<noteq> 0 \<and> var_value sol \<bar>l\<bar> = Some (0 < l))"

definition clause_true :: "int list \<Rightarrow> int list \<Rightarrow> bool" where
  "clause_true sol c = (\<exists>l \<in> set c. lit_true sol l)"

definition satisfies :: "int list \<Rightarrow> int list list \<Rightarrow> bool" where
  "satisfies sol cls = (\<forall>c \<in> set cls. clause_true sol c)"

definition is_assignment :: "nat \<Rightarrow> int list \<Rightarrow> bool" where
  "is_assignment n sol =
     (length sol = n \<and> (\<forall>k < n. sol ! k = int (Suc k) \<or> sol ! k = - int (Suc k)))"

fun all_assignments :: "nat \<Rightarrow> int list list" where
  "all_assignments 0 = [[]]"
| "all_assignments (Suc n) =
     concat (map (\<lambda>s. [s @ [int (Suc n)], s @ [- int (Suc n)]]) (all_assignments n))"

definition models :: "nat \<Rightarrow> int list list \<Rightarrow> int list list" where
  "models n cls = filter (\<lambda>s. satisfies s cls) (all_assignments n)"

subsection \<open>What the binding relies on from the engine\<close>



definition deref_total :: "search \<Rightarrow> bool" where
  "deref_total srch =
     (\<forall>p. fst (srch p) = PICOSAT_SATISFIABLE \<longrightarrow>
          (\<forall>i. 1 \<le> i \<and> i \<le> int (max_var p) \<longrightarrow> snd (srch p) i = 1 \<or> snd (srch p) i = - 1))"


definition unknown_limited :: "search \<Rightarrow> bool" where
  "unknown_limited srch = (\<forall>p. fst (srch p) = PICOSAT_UNKNOWN \<longrightarrow> limit p \<noteq> None)"

definition codes_ok :: "search \<Rightarrow> bool" where
  "codes_ok srch =
     (\<forall>p. fst (srch p) = PICOSAT_SATISFIABLE \<or> fst (srch p) = PICOSAT_UNSATISFIABLE \<or>
          fst (srch p) = PICOSAT_UNKNOWN)"

subsection \<open>A reference engine\<close>

text \<open>
  An engine that meets the contract, by exhaustive search over the assignments of the
  variable range; with a propagation limit below the number of assignments it gives
  up. It shows that the contract can be met and lets the theorems run on inputs.
\<close>

definition values_of :: "int list \<Rightarrow> int \<Rightarrow> int" where
  "values_of s i =
     (if 1 \<le> i \<and> i \<le> int (length s) then (if 0 < s ! nat (i - 1) then 1 else - 1) else 0)"

definition exhaustive :: search where
  "exhaustive p =
     (case models (max_var p) (added p) of
        [] \<Rightarrow> (PICOSAT_UNSATISFIABLE, \<lambda>i. 0)
      | s # ss \<Rightarrow> (PICOSAT_SATISFIABLE, values_of s))"

definition reference_search :: search where
  "reference_search p =
     (case limit p of
        None \<Rightarrow> exhaustive p
      | Some l \<Rightarrow> if l < 2 ^ max_var p then (PICOSAT_UNKNOWN, \<lambda>i. 0) else exhaustive p)"

section \<open>Notions used in the statements and proofs\<close>

subsection \<open>Concrete inputs\<close>

text \<open>
  A runtime in which nothing has happened yet and whose store holds \<open>obj\<close> at
  address 0, and the arguments of a call that passes that object and no keyword.
\<close>

definition runtime0 :: "pyobj \<Rightarrow> runtime" where
  "runtime0 obj =
     \<lparr>objs = (\<lambda>a. if a = 0 then obj else PyOther), err = None, alloc_fail = [],
      blocks = (\<lambda>a. None), mallocs = 0, frees = 0, minits = 0, resets = 0,
      sat_calls = 0, fault = False\<rparr>"

definition default_args :: call_args where
  "default_args = \<lparr>clauses = 0, vars = - 1, verbose = 0, prop_limit = 0\<rparr>"

subsection \<open>What is loaded into the engine\<close>

text \<open>
  \<open>add_lits\<close> and \<open>add_cls\<close> are the loops of \<open>add_clause\<close> and \<open>add_clauses\<close> on the
  items that are still to come; \<open>add_clause_loop_drop\<close> and \<open>add_clauses_loop_drop\<close>
  below prove that they compute what the loops over the index compute.
\<close>

fun add_lits :: "runtime \<Rightarrow> PicoSAT \<Rightarrow> pyobj list \<Rightarrow> int \<times> runtime \<times> PicoSAT" where
  "add_lits h p [] = (0, h, p)"
| "add_lits h p (lit # rest) =
     (case lit of
        PyLong x \<Rightarrow>
          (case PyLong_AsLong h x of
             (l, h2) \<Rightarrow>
               if long_to_int l = 0
               then (- 1, PyErr_SetString h2 ValueError ''non-zero interger expected'', p)
               else add_lits h2 (picosat_add p (long_to_int l)) rest)
      | _ \<Rightarrow> (- 1, PyErr_SetString h TypeError ''interger expected'', p))"

fun add_cls :: "runtime \<Rightarrow> PicoSAT \<Rightarrow> pyobj list \<Rightarrow> int \<times> runtime \<times> PicoSAT" where
  "add_cls h p [] = (0, h, p)"
| "add_cls h p (item # rest) =
     (case add_clause h p item of
        (r, h2, p2) \<Rightarrow> if r < 0 then (- 1, h2, p2) else add_cls h2 p2 rest)"

text \<open>
  \<open>as_c_int n\<close> is the \<open>int\<close> that \<open>add_clause\<close> hands to the engine for the Python
  integer \<open>n\<close>. \<open>load_clause\<close> is a clause added literal by literal and terminated;
  \<open>max_index\<close> is the largest variable index of a clause set and \<open>hint_of\<close> the range
  that \<open>vars\<close> reserves.
\<close>

definition as_c_int :: "int \<Rightarrow> int" where
  "as_c_int n = long_to_int (if - (2 ^ 63) \<le> n \<and> n < 2 ^ 63 then n else - 1)"

definition load_clause :: "PicoSAT \<Rightarrow> int list \<Rightarrow> PicoSAT" where
  "load_clause p c = picosat_add (foldl picosat_add p c) 0"

definition max_index :: "int list list \<Rightarrow> nat" where
  "max_index cls = foldr max (map (\<lambda>l. nat \<bar>l\<bar>) (concat cls)) 0"


subsection \<open>What is read from the engine\<close>

text \<open>
  \<open>after_sat srch p\<close> is the engine after \<open>picosat_sat\<close>. \<open>decode\<close> is the list that
  \<open>get_solution\<close> builds. \<open>current\<close> is the assignment as \<open>blocksol\<close> reads it off the
  engine (variable \<open>i\<close> is true when its value is positive) and \<open>negation\<close> the clause
  that \<open>blocksol\<close> adds.
\<close>

definition after_sat :: "search \<Rightarrow> PicoSAT \<Rightarrow> PicoSAT" where
  "after_sat srch p = p\<lparr>state := state_of (fst (srch p)), vals := snd (srch p)\<rparr>"

definition decode :: "PicoSAT \<Rightarrow> int list" where
  "decode p = map (\<lambda>i. picosat_deref p i * i) [1..picosat_variables p]"

definition current :: "PicoSAT \<Rightarrow> int list" where
  "current p = map (\<lambda>i. if picosat_deref p i > 0 then i else - i) [1..picosat_variables p]"

definition negation :: "PicoSAT \<Rightarrow> int list" where
  "negation p = map (\<lambda>i. if picosat_deref p i > 0 then - i else i) [1..picosat_variables p]"

subsection \<open>The enumeration\<close>


fun yields :: "outcome list \<Rightarrow> nat" where
  "yields [] = 0"
| "yields (Yield r # os) = Suc (yields os)"
| "yields (x # os) = yields os"

subsection \<open>Counters and the error indicator\<close>

text \<open>
  \<open>same_counts\<close>: no session was created or reset and the engine was not called.
  \<open>zero_error\<close>: the ValueError of a zero literal is set. \<open>sans_err\<close>: the runtime
  without its error indicator.
\<close>

definition same_counts :: "runtime \<Rightarrow> runtime \<Rightarrow> bool" where
  "same_counts h h' =
     (minits h' = minits h \<and> resets h' = resets h \<and> sat_calls h' = sat_calls h)"

definition zero_error :: "runtime \<Rightarrow> bool" where
  "zero_error h = (err h = Some (ValueError, ''non-zero interger expected'', []))"

definition sans_err :: "runtime \<Rightarrow> runtime" where
  "sans_err h = h\<lparr>err := None\<rparr>"

subsection \<open>The length of an assignment, in the words of the specification\<close>



text \<open>The loops are unfolded by hand, one round at a time.\<close>

declare add_clause_loop.simps [simp del] add_clauses_loop.simps [simp del]
  blocksol_fill.simps [simp del] blocksol_add.simps [simp del] get_solution_loop.simps [simp del]

section \<open>Properties of the model\<close>

lemma add_clause_loop_drop:
  "i \<le> length items \<Longrightarrow>
   add_clause_loop h p items (length items) i = add_lits h p (drop i items)"
proof (induction "length items - i" arbitrary: i h p)
  case 0
  then show ?case by (subst add_clause_loop.simps) simp
next
  case (Suc k)
  then have lt: "i < length items" by simp
  have dr: "drop i items = items ! i # drop (Suc i) items"
    using lt by (simp add: Cons_nth_drop_Suc)
  have IH: "\<And>h p. add_clause_loop h p items (length items) (Suc i) = add_lits h p (drop (Suc i) items)"
    using Suc(1)[of "Suc i"] Suc(2) lt by simp
  show ?case
    using lt
    by (subst add_clause_loop.simps)
       (simp add: dr IH PyList_GetItem_def Let_def split: pyobj.splits prod.splits)
qed

lemma add_clauses_loop_drop:
  "i \<le> length items \<Longrightarrow>
   add_clauses_loop h p items (length items) i = add_cls h p (drop i items)"
proof (induction "length items - i" arbitrary: i h p)
  case 0
  then show ?case by (subst add_clauses_loop.simps) simp
next
  case (Suc k)
  then have lt: "i < length items" by simp
  have dr: "drop i items = items ! i # drop (Suc i) items"
    using lt by (simp add: Cons_nth_drop_Suc)
  have IH: "\<And>h p. add_clauses_loop h p items (length items) (Suc i) = add_cls h p (drop (Suc i) items)"
    using Suc(1)[of "Suc i"] Suc(2) lt by simp
  show ?case
    using lt
    by (subst add_clauses_loop.simps)
       (simp add: dr IH PyList_GetItem_def split: prod.splits)
qed

lemma add_clause_eq:
  "add_clause h p (PyList items) =
     (case add_lits h p items of
        (r, h1, p1) \<Rightarrow> if r < 0 then (- 1, h1, p1) else (0, h1, picosat_add p1 0))"
  by (simp add: add_clause_def add_clause_loop_drop)

lemma add_clauses_eq: "add_clauses h p (PyList items) = add_cls h p items"
  by (simp add: add_clauses_def add_clauses_loop_drop)

text \<open>Typed input: validation can only fail on a zero.\<close>

lemma add_lits_typed:
  "add_lits h p (map PyLong c) = (r, h', p') \<Longrightarrow>
     same_counts h h' \<and> (r = 0 \<or> (r = - 1 \<and> zero_error h')) \<and> (0 \<in> set c \<longrightarrow> r = - 1)"
proof (induction c arbitrary: h p)
  case Nil
  then show ?case by (simp add: same_counts_def)
next
  case (Cons x c)
  obtain l h2 where lh: "PyLong_AsLong h x = (l, h2)" by force
  have sc: "same_counts h h2" using lh
    by (auto simp: PyLong_AsLong_def same_counts_def PyErr_SetString_def split: if_splits)
  show ?case
  proof (cases "long_to_int l = 0")
    case True
    with Cons.prems lh sc show ?thesis
      by (auto simp: zero_error_def PyErr_SetString_def same_counts_def)
  next
    case False
    have x0: "x \<noteq> 0" using False lh
      by (auto simp: PyLong_AsLong_def long_to_int_def split: if_splits)
    from Cons.prems lh False
    have "add_lits h2 (picosat_add p (long_to_int l)) (map PyLong c) = (r, h', p')" by simp
    from Cons.IH[OF this] sc x0 show ?thesis by (auto simp: same_counts_def)
  qed
qed

lemma add_clause_typed:
  "add_clause h p (py_clause c) = (r, h', p') \<Longrightarrow>
     same_counts h h' \<and> (r = 0 \<or> (r = - 1 \<and> zero_error h')) \<and> (0 \<in> set c \<longrightarrow> r = - 1)"
proof -
  assume a: "add_clause h p (py_clause c) = (r, h', p')"
  obtain r1 h1 p1 where al: "add_lits h p (map PyLong c) = (r1, h1, p1)"
    using prod_cases3 by blast
  from add_lits_typed[OF al] a al show ?thesis
    by (auto simp: py_clause_def add_clause_eq split: if_splits)
qed

lemma add_cls_typed:
  "add_cls h p (map py_clause cls) = (r, h', p') \<Longrightarrow>
     same_counts h h' \<and> (r = 0 \<or> (r = - 1 \<and> zero_error h')) \<and>
     ((\<exists>c \<in> set cls. 0 \<in> set c) \<longrightarrow> r = - 1)"
proof (induction cls arbitrary: h p)
  case Nil
  then show ?case by (simp add: same_counts_def)
next
  case (Cons c cls)
  obtain r1 h1 p1 where ac: "add_clause h p (py_clause c) = (r1, h1, p1)"
    using prod_cases3 by blast
  note t = add_clause_typed[OF ac]
  show ?case
  proof (cases "r1 < 0")
    case True
    with Cons.prems ac t show ?thesis by auto
  next
    case False
    with Cons.prems ac have "add_cls h1 p1 (map py_clause cls) = (r, h', p')" by simp
    from Cons.IH[OF this] t False show ?thesis by (auto simp: same_counts_def)
  qed
qed

lemma setup_picosat_zero:
  assumes "objs h (clauses a) = py_clauses cls" and "\<exists>c \<in> set cls. 0 \<in> set c"
  shows "\<exists>h'. setup_picosat h (Some a) = (None, h') \<and> zero_error h' \<and>
           sat_calls h' = sat_calls h \<and> minits h' = Suc (minits h) \<and>
           resets h' = Suc (resets h)"
proof -
  obtain p0 h1 where mi: "picosat_minit h = (p0, h1)" by force
  have h1: "h1 = h\<lparr>minits := Suc (minits h)\<rparr>" using mi by (simp add: picosat_minit_def)
  define p3 where "p3 = (let p1 = picosat_set_verbosity p0 (verbose a);
                    p2 = (if vars a \<noteq> - 1 then picosat_adjust p1 (vars a) else p1)
                in (if prop_limit a \<noteq> 0
                          then picosat_set_propagation_limit p2 (prop_limit a) else p2))"
  obtain r h2 p4 where ac: "add_cls h1 p3 (map py_clause cls) = (r, h2, p4)"
    using prod_cases3 by blast
  from add_cls_typed[OF ac] assms(2)
  have r: "r = - 1" "zero_error h2" "same_counts h1 h2" by auto
  have "setup_picosat h (Some a) = (None, picosat_reset h2)"
    using mi ac r(1) assms(1) h1
    by (simp add: setup_picosat_def p3_def Let_def py_clauses_def add_clauses_eq)
  moreover have "zero_error (picosat_reset h2)"
    using r(2) by (simp add: zero_error_def picosat_reset_def)
  moreover have "sat_calls (picosat_reset h2) = sat_calls h"
    "minits (picosat_reset h2) = Suc (minits h)" "resets (picosat_reset h2) = Suc (resets h)"
    using r(3) h1 by (simp_all add: same_counts_def picosat_reset_def)
  ultimately show ?thesis by simp
qed

text \<open>
  C5. A clause set (a list of lists of integers) with a literal 0 in some clause: both
  \<open>solve\<close> and \<open>itersolve\<close> return NULL with the ValueError of the zero literal set,
  \<open>picosat_sat\<close> has not been called, and the session that was created has been reset
  (one \<open>picosat_minit\<close>, one \<open>picosat_reset\<close>). For \<open>itersolve\<close> this is the case
  whenever the iterator object itself could be allocated.
\<close>

theorem zero_literal_rejected:
  assumes "objs h (clauses a) = py_clauses cls" and "\<exists>c \<in> set cls. 0 \<in> set c"
  shows "(\<exists>h'. solve srch h (Some a) = (None, h') \<and> zero_error h' \<and>
            sat_calls h' = sat_calls h \<and> minits h' = Suc (minits h) \<and>
            resets h' = Suc (resets h)) \<and>
         (fst (PyObject_GC_New h) \<longrightarrow>
            (\<exists>h'. itersolve h (Some a) = (None, h') \<and> zero_error h' \<and>
               sat_calls h' = sat_calls h \<and> minits h' = Suc (minits h) \<and>
               resets h' = Suc (resets h)))"
proof
  from setup_picosat_zero[OF assms]
  show "\<exists>h'. solve srch h (Some a) = (None, h') \<and> zero_error h' \<and>
            sat_calls h' = sat_calls h \<and> minits h' = Suc (minits h) \<and>
            resets h' = Suc (resets h)"
    by (auto simp: solve_def)
next
  show "fst (PyObject_GC_New h) \<longrightarrow>
            (\<exists>h'. itersolve h (Some a) = (None, h') \<and> zero_error h' \<and>
               sat_calls h' = sat_calls h \<and> minits h' = Suc (minits h) \<and>
               resets h' = Suc (resets h))"
  proof
    assume g: "fst (PyObject_GC_New h)"
    obtain h1 where h1: "PyObject_GC_New h = (True, h1)" using g by (cases "PyObject_GC_New h") auto
    have same: "objs h1 = objs h" "sat_calls h1 = sat_calls h" "minits h1 = minits h"
      "resets h1 = resets h"
      using h1 by (auto simp: PyObject_GC_New_def host_alloc_def PyErr_NoMemory_def
          split: list.splits if_splits bool.splits)
    from setup_picosat_zero[of h1 a cls] assms same
    obtain h' where "setup_picosat h1 (Some a) = (None, h')" "zero_error h'"
      "sat_calls h' = sat_calls h" "minits h' = Suc (minits h)" "resets h' = Suc (resets h)"
      by auto
    then show "\<exists>h'. itersolve h (Some a) = (None, h') \<and> zero_error h' \<and>
               sat_calls h' = sat_calls h \<and> minits h' = Suc (minits h) \<and>
               resets h' = Suc (resets h)"
      using h1 by (simp add: itersolve_def)
  qed
qed

theorem zero_literal_rejected_witness:
  "(\<exists>c \<in> set [[1], [2, 0 :: int]]. 0 \<in> set c) \<and>
   fst (PyObject_GC_New (runtime0 (py_clauses [[1], [2, 0]]))) \<and>
   (\<exists>h'. solve reference_search (runtime0 (py_clauses [[1], [2, 0]])) (Some default_args)
            = (None, h') \<and> zero_error h' \<and> sat_calls h' = 0 \<and> minits h' = 1 \<and> resets h' = 1) \<and>
   (\<exists>h'. itersolve (runtime0 (py_clauses [[1], [2, 0]])) (Some default_args)
            = (None, h') \<and> zero_error h' \<and> sat_calls h' = 0 \<and> minits h' = 1 \<and> resets h' = 1)"
proof -
  have g: "fst (PyObject_GC_New (runtime0 (py_clauses [[1], [2, 0]])))"
    by (simp add: PyObject_GC_New_def host_alloc_def runtime0_def)
  have o: "objs (runtime0 (py_clauses [[1], [2, 0]])) (clauses default_args)
             = py_clauses [[1], [2, 0]]"
    by (simp add: runtime0_def default_args_def)
  have z: "\<exists>c \<in> set [[1], [2, 0 :: int]]. 0 \<in> set c" by simp
  from zero_literal_rejected[OF o z, of reference_search] g z
  show ?thesis by (simp add: runtime0_def)
qed





lemma foldl_add_fields:
  "\<forall>l \<in> set c. l \<noteq> 0 \<Longrightarrow>
   added (foldl picosat_add p c) = added p \<and>
   pending (foldl picosat_add p c) = pending p @ c \<and>
   max_var (foldl picosat_add p c) = foldr max (map (\<lambda>l. nat \<bar>l\<bar>) c) (max_var p) \<and>
   limit (foldl picosat_add p c) = limit p \<and>
   verbosity (foldl picosat_add p c) = verbosity p"
proof (induction c arbitrary: p)
  case Nil
  then show ?case by simp
next
  case (Cons l c)
  have "foldr max (map (\<lambda>l. nat \<bar>l\<bar>) c) (max (max_var p) (nat \<bar>l\<bar>))
        = max (nat \<bar>l\<bar>) (foldr max (map (\<lambda>l. nat \<bar>l\<bar>) c) (max_var p))"
    by (induction c) (auto simp: max.left_commute max.commute)
  with Cons show ?case by (simp add: picosat_add_def)
qed

lemma load_clause_fields:
  "\<forall>l \<in> set c. l \<noteq> 0 \<Longrightarrow>
   added (load_clause p c) = added p @ [pending p @ c] \<and>
   pending (load_clause p c) = [] \<and>
   max_var (load_clause p c) = foldr max (map (\<lambda>l. nat \<bar>l\<bar>) c) (max_var p) \<and>
   limit (load_clause p c) = limit p \<and>
   verbosity (load_clause p c) = verbosity p \<and>
   state (load_clause p c) = READY"
  using foldl_add_fields[of c p] by (simp add: load_clause_def picosat_add_def)

lemma foldr_max_mono_base: "foldr max (xs :: nat list) m = max (foldr max xs 0) m"
  by (induction xs) auto

lemma load_clauses_fields:
  "\<forall>c \<in> set cls. \<forall>l \<in> set c. l \<noteq> 0 \<Longrightarrow> pending p = [] \<Longrightarrow>
   added (foldl load_clause p cls) = added p @ cls \<and>
   pending (foldl load_clause p cls) = [] \<and>
   max_var (foldl load_clause p cls) = max (max_var p) (max_index cls) \<and>
   limit (foldl load_clause p cls) = limit p \<and>
   verbosity (foldl load_clause p cls) = verbosity p"
proof (induction cls arbitrary: p)
  case Nil
  then show ?case by (simp add: max_index_def)
next
  case (Cons c cls)
  have c: "\<forall>l \<in> set c. l \<noteq> 0" using Cons.prems by simp
  note f = load_clause_fields[OF c, of p]
  have IH: "added (foldl load_clause (load_clause p c) cls) = added (load_clause p c) @ cls \<and>
   pending (foldl load_clause (load_clause p c) cls) = [] \<and>
   max_var (foldl load_clause (load_clause p c) cls) = max (max_var (load_clause p c)) (max_index cls) \<and>
   limit (foldl load_clause (load_clause p c) cls) = limit (load_clause p c) \<and>
   verbosity (foldl load_clause (load_clause p c) cls) = verbosity (load_clause p c)"
    using Cons.IH[of "load_clause p c"] Cons.prems f by simp
  have m: "max_index (c # cls) = max (foldr max (map (\<lambda>l. nat \<bar>l\<bar>) c) 0) (max_index cls)"
    unfolding max_index_def
    by (simp add: foldr_max_mono_base[of "map (\<lambda>l. nat \<bar>l\<bar>) c" "foldr max (map (\<lambda>l. nat \<bar>l\<bar>) (concat cls)) 0"])
  have m2: "foldr max (map (\<lambda>l. nat \<bar>l\<bar>) c) (max_var p) = max (foldr max (map (\<lambda>l. nat \<bar>l\<bar>) c) 0) (max_var p)"
    by (rule foldr_max_mono_base)
  show ?case using IH f Cons.prems(2) m m2 by (simp add: max.assoc max.commute max.left_commute)
qed



lemma get_solution_loop_eq:
  "1 \<le> i \<Longrightarrow> i \<le> n + 1 \<Longrightarrow> int (length items) = n \<Longrightarrow>
   get_solution_loop h p items n i =
     (Some (PyList (take (nat (i - 1)) items @ map (\<lambda>j. PyLong (picosat_deref p j * j)) [i..n])), h)"
proof (induction "nat (n + 1 - i)" arbitrary: i items)
  case 0
  then have "i = n + 1" by simp
  with 0 show ?case by (subst get_solution_loop.simps) simp
next
  case (Suc k)
  then have le: "i \<le> n" by simp
  let ?x = "PyLong (picosat_deref p i * i)"
  have idx: "0 \<le> i - 1" "nat (i - 1) < length items" using Suc.prems le by auto
  have IH: "get_solution_loop h p (items[nat (i - 1) := ?x]) n (i + 1) =
     (Some (PyList (take (nat i) (items[nat (i - 1) := ?x]) @
         map (\<lambda>j. PyLong (picosat_deref p j * j)) [i + 1..n])), h)"
    using Suc(1)[of "i + 1" "items[nat (i - 1) := ?x]"] Suc(2) Suc.prems le by simp
  have tk: "take (nat i) (items[nat (i - 1) := ?x]) = take (nat (i - 1)) items @ [?x]"
  proof -
    have "nat i = Suc (nat (i - 1))" using Suc.prems by simp
    then show ?thesis using idx by (simp add: take_Suc_conv_app_nth)
  qed
  have up: "[i..n] = i # [i + 1..n]" using le by (simp add: upto_rec1)
  show ?case
    using le idx
    by (subst get_solution_loop.simps)
       (simp add: PyList_SetItem_def PyInt_FromLong_def Let_def IH tk up)
qed

lemma get_solution_eq:
  "host_alloc h = (ok, h1) \<Longrightarrow>
   get_solution h p =
     (if ok then (Some (PyList (map PyLong (decode p))), h1)
      else (None, picosat_reset (PyErr_NoMemory h1)))"
  using get_solution_loop_eq[of 1 "int (max_var p)" "replicate (max_var p) PyNULL" h1 p]
  by (simp add: get_solution_def PyList_New_def picosat_variables_def decode_def Let_def
      comp_def split: bool.splits)

lemma ints_of_longs: "ints_of (PyList (map PyLong xs)) = Some xs"
  by (induction xs) (auto simp: list_all_iff comp_def)

lemma blocksol_fill_eq:
  "1 \<le> i \<Longrightarrow> i \<le> n + 1 \<Longrightarrow> blocks h a = Some b \<Longrightarrow> int (length b) = n + 1 \<Longrightarrow>
   blocksol_fill h p a n i =
     h\<lparr>blocks := (blocks h)(a \<mapsto> take (nat i) b @
           map (\<lambda>j. if picosat_deref p j > 0 then 1 else - 1) [i..n])\<rparr>"
proof (induction "nat (n + 1 - i)" arbitrary: i b h)
  case 0
  then have "i = n + 1" by simp
  moreover have "(blocks h)(a \<mapsto> b) = blocks h" using 0 by (simp add: fun_upd_idem)
  ultimately show ?case using 0 by (subst blocksol_fill.simps) simp
next
  case (Suc k)
  then have le: "i \<le> n" by simp
  let ?v = "if picosat_deref p i > 0 then 1 else - 1 :: int"
  let ?h = "h\<lparr>blocks := (blocks h)(a \<mapsto> b[nat i := ?v])\<rparr>"
  have idx: "0 \<le> i" "nat i < length b" using Suc.prems le by auto
  have pk: "poke h a i ?v = ?h" using Suc.prems idx by (simp add: poke_def)
  have IH: "blocksol_fill ?h p a n (i + 1) =
     ?h\<lparr>blocks := (blocks ?h)(a \<mapsto> take (nat (i + 1)) (b[nat i := ?v]) @
           map (\<lambda>j. if picosat_deref p j > 0 then 1 else - 1) [i + 1..n])\<rparr>"
    using Suc(1)[of "i + 1" ?h "b[nat i := ?v]"] Suc(2) Suc.prems le by simp
  have tk: "take (nat (i + 1)) (b[nat i := ?v]) = take (nat i) b @ [?v]"
  proof -
    have "nat (i + 1) = Suc (nat i)" using Suc.prems by simp
    then show ?thesis using idx by (simp add: take_Suc_conv_app_nth)
  qed
  have up: "[i..n] = i # [i + 1..n]" using le by (simp add: upto_rec1)
  show ?case
    using le
    by (subst blocksol_fill.simps) (simp add: pk IH tk up del: fun_upd_apply)
qed

lemma blocksol_add_eq:
  "\<forall>j. i \<le> j \<and> j \<le> n \<longrightarrow> peek h a j = f j \<Longrightarrow>
   blocksol_add h p a n i = foldl picosat_add p (map (\<lambda>j. if f j < 0 then j else - j) [i..n])"
proof (induction "nat (n + 1 - i)" arbitrary: i p)
  case 0
  then have "\<not> i \<le> n" by simp
  then show ?case by (subst blocksol_add.simps) simp
next
  case (Suc k)
  then have le: "i \<le> n" by simp
  have up: "[i..n] = i # [i + 1..n]" using le by (simp add: upto_rec1)
  have IH: "\<And>p. blocksol_add h p a n (i + 1) =
      foldl picosat_add p (map (\<lambda>j. if f j < 0 then j else - j) [i + 1..n])"
    using Suc(1)[of "i + 1"] Suc(2) Suc.prems by simp
  show ?case
    using le Suc.prems
    by (subst blocksol_add.simps) (simp add: IH up)
qed

lemma peek_filled:
  assumes "blocks h a = Some (take 1 b @ map f [1..n])" "1 \<le> j" "j \<le> n" "b \<noteq> []"
  shows "peek h a j = f j"
proof -
  obtain x xs where b: "b = x # xs" using assms(4) by (cases b) auto
  have len: "length (take 1 b @ map f [1..n]) = Suc (nat n)"
    using assms(2,3) by (simp add: b)
  have j: "nat j - 1 < length [1..n]" "nat j = Suc (nat j - 1)" using assms(2,3) by simp_all
  have "[1..n] ! (nat j - 1) = j" using assms(2,3) by simp
  then have "(take 1 b @ map f [1..n]) ! nat j = f j"
    using j assms(2) by (simp add: b nth_Cons')
  moreover have "nat j < Suc (nat n)" using assms(2,3) by simp
  ultimately show ?thesis using assms(1,2) len by (simp add: peek_def)
qed

lemma blocksol_NULL:
  "host_alloc h = (ok, h1) \<Longrightarrow>
   blocksol h p None =
     (if ok
      then (0, h1\<lparr>blocks := (blocks h1)(mallocs h1 \<mapsto>
                    [0] @ map (\<lambda>j. if picosat_deref p j > 0 then 1 else - 1)
                            [1..picosat_variables p]),
                  mallocs := Suc (mallocs h1)\<rparr>,
            load_clause p (negation p))
      else (- 1, PyErr_NoMemory h1, p))"
proof (cases ok)
  case False
  assume "host_alloc h = (ok, h1)"
  with False show ?thesis by (simp add: blocksol_def PyMem_Malloc_def Let_def)
next
  case True
  assume ha: "host_alloc h = (ok, h1)"
  let ?n = "picosat_variables p"
  let ?a = "mallocs h1"
  let ?b = "replicate (nat (?n + 1)) (0::int)"
  let ?g = "\<lambda>j. if picosat_deref p j > 0 then 1 else - 1 :: int"
  let ?h = "h1\<lparr>blocks := (blocks h1)(?a \<mapsto> ?b), mallocs := Suc ?a\<rparr>"
  have n0: "0 \<le> ?n" by (simp add: picosat_variables_def)
  have pm: "PyMem_Malloc h (nat (?n + 1)) = (Some ?a, ?h)"
    using ha True by (simp add: PyMem_Malloc_def)
  have tk: "take (nat 1) ?b = [0]" using n0 by (simp add: take_Suc_conv_app_nth nat_add_distrib)
  have fill: "blocksol_fill ?h p ?a ?n 1 =
      ?h\<lparr>blocks := (blocks ?h)(?a \<mapsto> [0] @ map ?g [1..?n])\<rparr>"
    using blocksol_fill_eq[of 1 ?n ?h ?a ?b p] n0 tk by simp
  let ?h2 = "?h\<lparr>blocks := (blocks ?h)(?a \<mapsto> [0] @ map ?g [1..?n])\<rparr>"
  have pk: "\<forall>j. 1 \<le> j \<and> j \<le> ?n \<longrightarrow> peek ?h2 ?a j = ?g j"
    using peek_filled[of ?h2 ?a "[0]" ?g ?n] by simp
  have lam: "(\<lambda>j. if ?g j < 0 then j else - j) = (\<lambda>j. if picosat_deref p j > 0 then - j else j)"
    by (rule ext) simp
  have add: "blocksol_add ?h2 p ?a ?n 1 = foldl picosat_add p (negation p)"
    using blocksol_add_eq[OF pk, of p] unfolding lam negation_def .
  show ?thesis
    using True pm fill add
    by (simp add: blocksol_def Let_def load_clause_def del: fun_upd_apply)
qed

lemma picosat_sat_eq:
  "picosat_sat srch h p = (fst (srch p), h\<lparr>sat_calls := Suc (sat_calls h)\<rparr>, after_sat srch p)"
  by (simp add: picosat_sat_def after_sat_def split: prod.splits)

lemma after_sat_fields:
  "added (after_sat srch p) = added p" "pending (after_sat srch p) = pending p"
  "max_var (after_sat srch p) = max_var p" "limit (after_sat srch p) = limit p"
  "picosat_variables (after_sat srch p) = picosat_variables p"
  by (simp_all add: after_sat_def picosat_variables_def)

lemma deref_after_sat:
  "fst (srch p) = PICOSAT_SATISFIABLE \<Longrightarrow> 1 \<le> i \<Longrightarrow> i \<le> int (max_var p) \<Longrightarrow>
   picosat_deref (after_sat srch p) i = snd (srch p) i"
  by (simp add: picosat_deref_def after_sat_def state_of_def)

text \<open>One advance of an iterator whose \<open>mem\<close> is NULL, whatever the allocator does.\<close>

lemma soliter_next_cases:
  assumes "mem it = None" and "soliter_next srch h it = (r, h', it')"
  shows "(r = Some (PyList (map PyLong (decode (after_sat srch (picosat it))))) \<and>
          fst (srch (picosat it)) = PICOSAT_SATISFIABLE \<and>
          it' = it\<lparr>picosat := load_clause (after_sat srch (picosat it))
                               (negation (after_sat srch (picosat it)))\<rparr>) \<or>
         (r = None \<and> it' = it\<lparr>picosat := after_sat srch (picosat it)\<rparr>)"
proof -
  let ?p1 = "after_sat srch (picosat it)"
  let ?h1 = "h\<lparr>sat_calls := Suc (sat_calls h)\<rparr>"
  obtain ok1 h2 where a1: "host_alloc ?h1 = (ok1, h2)" by force
  obtain ok2 h3 where a2: "host_alloc h2 = (ok2, h3)" by force
  show ?thesis
    using assms
    by (auto simp: soliter_next_def picosat_sat_eq get_solution_eq[OF a1] blocksol_NULL[OF a2]
        split: if_splits)
qed

lemma negation_nonzero: "\<forall>l \<in> set (negation p). l \<noteq> 0"
  by (auto simp: negation_def)

lemma negation_bound: "l \<in> set (negation p) \<Longrightarrow> nat \<bar>l\<bar> \<le> max_var p"
  by (auto simp: negation_def picosat_variables_def)

lemma foldr_max_le: "(\<forall>x \<in> set xs. x \<le> m) \<Longrightarrow> foldr max (xs::nat list) m = m"
  by (induction xs) auto

lemma load_negation_fields:
  "added (load_clause p (negation p)) = added p @ [pending p @ negation p]"
  "pending (load_clause p (negation p)) = []"
  "max_var (load_clause p (negation p)) = max_var p"
  "limit (load_clause p (negation p)) = limit p"
proof -
  note f = load_clause_fields[OF negation_nonzero, of p p]
  show "added (load_clause p (negation p)) = added p @ [pending p @ negation p]"
    "pending (load_clause p (negation p)) = []" "limit (load_clause p (negation p)) = limit p"
    using f by simp_all
  have "foldr max (map (\<lambda>l. nat \<bar>l\<bar>) (negation p)) (max_var p) = max_var p"
    by (rule foldr_max_le) (auto dest: negation_bound)
  then show "max_var (load_clause p (negation p)) = max_var p" using f by simp
qed

text \<open>What every advance keeps: \<open>mem\<close> stays NULL, no clause is pending, the clauses
  that were added stay, the variable range stays.\<close>

lemma soliter_next_keeps:
  assumes "mem it = None" and "soliter_next srch h it = (r, h', it')"
  shows "mem it' = None" "max_var (picosat it') = max_var (picosat it)"
    "limit (picosat it') = limit (picosat it)"
    "pending (picosat it) = [] \<Longrightarrow> pending (picosat it') = []"
    "\<exists>bs. added (picosat it') = added (picosat it) @ bs"
  using soliter_next_cases[OF assms] assms(1)
  by (auto simp: load_negation_fields after_sat_fields)

lemma soliter_advance_keeps:
  assumes "soliter_advance srch n h it = (os, h', it')" and "mem it = None"
  shows "mem it' = None \<and> max_var (picosat it') = max_var (picosat it) \<and>
    limit (picosat it') = limit (picosat it) \<and>
    (pending (picosat it) = [] \<longrightarrow> pending (picosat it') = []) \<and>
    (\<exists>bs. added (picosat it') = added (picosat it) @ bs)"
  using assms
proof (induction n arbitrary: h it os)
  case 0
  then show ?case by simp
next
  case (Suc n)
  obtain r h1 it1 where st: "soliter_next srch h it = (r, h1, it1)" using prod_cases3 by blast
  note k = soliter_next_keeps[OF Suc.prems(2) st]
  show ?case
  proof (cases "r = None \<and> err h1 \<noteq> None")
    case True
    with Suc.prems st have "it' = it1" by auto
    with k show ?thesis by auto
  next
    case False
    obtain os2 where "soliter_advance srch n h1 it1 = (os2, h', it')"
      using Suc.prems(1) st False by (auto split: option.splits prod.splits)
    from Suc.IH[OF this k(1)] k show ?thesis by auto
  qed
qed








text \<open>The assignments of a variable range.\<close>

lemma is_assignment_snoc:
  "is_assignment (Suc n) s \<longleftrightarrow>
     (\<exists>t x. s = t @ [x] \<and> is_assignment n t \<and> (x = int (Suc n) \<or> x = - int (Suc n)))"
proof
  assume a: "is_assignment (Suc n) s"
  then have len: "length s = Suc n" by (simp add: is_assignment_def)
  then obtain t x where s: "s = t @ [x]" "length t = n"
    by (metis length_Suc_conv_rev)
  have "is_assignment n t"
    unfolding is_assignment_def
  proof (intro conjI allI impI)
    show "length t = n" by (rule s(2))
    fix k assume k: "k < n"
    then have "s ! k = t ! k" using s by (simp add: nth_append)
    moreover have "s ! k = int (Suc k) \<or> s ! k = - int (Suc k)"
      using a k by (simp add: is_assignment_def)
    ultimately show "t ! k = int (Suc k) \<or> t ! k = - int (Suc k)" by simp
  qed
  moreover have "x = int (Suc n) \<or> x = - int (Suc n)"
  proof -
    have "s ! n = x" using s by (simp add: nth_append)
    moreover have "s ! n = int (Suc n) \<or> s ! n = - int (Suc n)"
      using a unfolding is_assignment_def by blast
    ultimately show ?thesis by simp
  qed
  ultimately show "\<exists>t x. s = t @ [x] \<and> is_assignment n t \<and> (x = int (Suc n) \<or> x = - int (Suc n))"
    using s(1) by blast
next
  assume "\<exists>t x. s = t @ [x] \<and> is_assignment n t \<and> (x = int (Suc n) \<or> x = - int (Suc n))"
  then obtain t x where s: "s = t @ [x]" "is_assignment n t" "x = int (Suc n) \<or> x = - int (Suc n)"
    by blast
  show "is_assignment (Suc n) s"
    unfolding is_assignment_def
  proof (intro conjI allI impI)
    show "length s = Suc n" using s by (simp add: is_assignment_def)
    fix k assume k: "k < Suc n"
    show "s ! k = int (Suc k) \<or> s ! k = - int (Suc k)"
    proof (cases "k < n")
      case True
      then have "s ! k = t ! k" using s by (simp add: nth_append is_assignment_def)
      then show ?thesis using s(2) True by (simp add: is_assignment_def)
    next
      case False
      then have "k = n" using k by simp
      then have "s ! k = x" using s by (simp add: nth_append is_assignment_def)
      then show ?thesis using s(3) \<open>k = n\<close> by simp
    qed
  qed
qed

lemma all_assignments_iff: "s \<in> set (all_assignments n) \<longleftrightarrow> is_assignment n s"
proof (induction n arbitrary: s)
  case 0
  show ?case by (auto simp: is_assignment_def)
next
  case (Suc n)
  have "s \<in> set (all_assignments (Suc n)) \<longleftrightarrow>
        (\<exists>t \<in> set (all_assignments n). s = t @ [int (Suc n)] \<or> s = t @ [- int (Suc n)])"
    by auto
  also have "\<dots> \<longleftrightarrow> (\<exists>t x. s = t @ [x] \<and> is_assignment n t \<and> (x = int (Suc n) \<or> x = - int (Suc n)))"
    using Suc.IH by blast
  finally show ?case by (simp only: is_assignment_snoc)
qed



lemma models_iff: "s \<in> set (models n cls) \<longleftrightarrow> is_assignment n s \<and> satisfies s cls"
  by (auto simp: models_def all_assignments_iff)



text \<open>The reference engine meets the contract.\<close>

lemma values_of_assignment:
  "is_assignment n s \<Longrightarrow> 1 \<le> i \<Longrightarrow> i \<le> int n \<Longrightarrow> values_of s i = 1 \<or> values_of s i = - 1"
  by (simp add: values_of_def is_assignment_def)


lemma exhaustive_cases:
  "(fst (exhaustive p) = PICOSAT_UNSATISFIABLE \<and> models (max_var p) (added p) = []) \<or>
   (\<exists>s. fst (exhaustive p) = PICOSAT_SATISFIABLE \<and> snd (exhaustive p) = values_of s \<and>
        s \<in> set (models (max_var p) (added p)))"
  by (cases "models (max_var p) (added p)") (auto simp: exhaustive_def)

lemma codes_distinct:
  "PICOSAT_SATISFIABLE \<noteq> PICOSAT_UNSATISFIABLE" "PICOSAT_SATISFIABLE \<noteq> PICOSAT_UNKNOWN"
  "PICOSAT_UNSATISFIABLE \<noteq> PICOSAT_UNKNOWN"
  by (simp_all add: PICOSAT_SATISFIABLE_def PICOSAT_UNSATISFIABLE_def PICOSAT_UNKNOWN_def)

lemma reference_cases:
  "(fst (reference_search p) = PICOSAT_UNKNOWN \<and> limit p \<noteq> None) \<or>
   (fst (reference_search p) = PICOSAT_UNSATISFIABLE \<and> models (max_var p) (added p) = []) \<or>
   (\<exists>s. fst (reference_search p) = PICOSAT_SATISFIABLE \<and> snd (reference_search p) = values_of s \<and>
        s \<in> set (models (max_var p) (added p)))"
  using exhaustive_cases[of p] by (auto simp: reference_search_def split: option.splits)


lemma reference_deref_total: "deref_total reference_search"
  unfolding deref_total_def
proof (intro allI impI)
  fix p i assume sat: "fst (reference_search p) = PICOSAT_SATISFIABLE"
    and i: "1 \<le> i \<and> i \<le> int (max_var p)"
  with reference_cases[of p] codes_distinct
  obtain s where s: "snd (reference_search p) = values_of s" "s \<in> set (models (max_var p) (added p))"
    by auto
  then have "is_assignment (max_var p) s" by (simp add: models_iff)
  from values_of_assignment[OF this] i s(1)
  show "snd (reference_search p) i = 1 \<or> snd (reference_search p) i = - 1" by simp
qed


lemma reference_unknown_limited: "unknown_limited reference_search"
  unfolding unknown_limited_def using reference_cases codes_distinct by metis

lemma reference_codes_ok: "codes_ok reference_search"
  unfolding codes_ok_def using reference_cases by blast

lemma runtime0_objs: "objs (runtime0 obj) (clauses default_args) = obj"
  by (simp add: runtime0_def default_args_def)


text \<open>The blocking clause.\<close>

lemma assignment_nth_abs:
  "is_assignment n s \<Longrightarrow> k < n \<Longrightarrow> \<bar>s ! k\<bar> = int (Suc k) \<and> s ! k \<noteq> 0"
  unfolding is_assignment_def by fastforce

lemma lit_true_nth:
  assumes "is_assignment n s"
  shows "lit_true s l \<longleftrightarrow> (l \<noteq> 0 \<and> \<bar>l\<bar> \<le> int n \<and> s ! nat (\<bar>l\<bar> - 1) = l)"
proof (cases "l \<noteq> 0 \<and> \<bar>l\<bar> \<le> int n")
  case False
  then show ?thesis using assms by (auto simp: lit_true_def var_value_def is_assignment_def)
next
  case True
  then have k: "nat (\<bar>l\<bar> - 1) < n" "int (Suc (nat (\<bar>l\<bar> - 1))) = \<bar>l\<bar>" by auto
  have len: "length s = n" using assms by (simp add: is_assignment_def)
  have v: "s ! nat (\<bar>l\<bar> - 1) = \<bar>l\<bar> \<or> s ! nat (\<bar>l\<bar> - 1) = - \<bar>l\<bar>"
    using assms k unfolding is_assignment_def by metis
  have "1 \<le> \<bar>l\<bar>" using True by linarith
  then have "var_value s \<bar>l\<bar> = Some (0 < s ! nat (\<bar>l\<bar> - 1))"
    using True len by (simp add: var_value_def)
  then show ?thesis using True v by (auto simp: lit_true_def)
qed

lemma blocking_clause_true:
  assumes s: "is_assignment n s" and t: "is_assignment n t"
  shows "clause_true t (map uminus s) \<longleftrightarrow> t \<noteq> s"
proof
  assume "clause_true t (map uminus s)"
  then obtain l where l: "l \<in> set s" "lit_true t (- l)" by (auto simp: clause_true_def)
  then obtain k where k: "k < n" "s ! k = l"
    using s by (auto simp: in_set_conv_nth is_assignment_def)
  have "\<bar>l\<bar> = int (Suc k)" "l \<noteq> 0" using assignment_nth_abs[OF s k(1)] k(2) by auto
  then have "t ! k = - l" using l(2) lit_true_nth[OF t, of "- l"] by simp
  then have "t ! k \<noteq> s ! k" using k(2) \<open>l \<noteq> 0\<close> by simp
  then show "t \<noteq> s" by auto
next
  assume "t \<noteq> s"
  moreover have "length t = length s" using s t by (simp add: is_assignment_def)
  ultimately obtain k where k: "k < length s" "t ! k \<noteq> s ! k"
    using nth_equalityI by metis
  have kn: "k < n" using k(1) s by (simp add: is_assignment_def)
  have "s ! k = int (Suc k) \<or> s ! k = - int (Suc k)" "t ! k = int (Suc k) \<or> t ! k = - int (Suc k)"
    using s t kn by (auto simp: is_assignment_def)
  then have tk: "t ! k = - (s ! k)" using k(2) by auto
  have "\<bar>- (s ! k)\<bar> = int (Suc k)" "- (s ! k) \<noteq> 0"
    using assignment_nth_abs[OF s kn] by auto
  then have "lit_true t (- (s ! k))" using lit_true_nth[OF t, of "- (s ! k)"] tk kn by simp
  moreover have "- (s ! k) \<in> set (map uminus s)" using k(1) by auto
  ultimately show "clause_true t (map uminus s)" unfolding clause_true_def by blast
qed


lemma negation_decode:
  assumes "deref_total srch" "fst (srch p) = PICOSAT_SATISFIABLE"
  shows "negation (after_sat srch p) = map uminus (decode (after_sat srch p))"
proof -
  have "\<And>i. i \<in> set [1..int (max_var p)] \<Longrightarrow>
      (if picosat_deref (after_sat srch p) i > 0 then - i else i)
        = - (picosat_deref (after_sat srch p) i * i)"
  proof -
    fix i assume "i \<in> set [1..int (max_var p)]"
    then have r: "1 \<le> i" "i \<le> int (max_var p)" by auto
    have "snd (srch p) i = 1 \<or> snd (srch p) i = - 1"
      using assms r unfolding deref_total_def by blast
    then show "(if picosat_deref (after_sat srch p) i > 0 then - i else i)
        = - (picosat_deref (after_sat srch p) i * i)"
      using deref_after_sat[of srch p i] assms(2) r by auto
  qed
  then show ?thesis
    by (simp add: negation_def decode_def after_sat_fields picosat_variables_def)
qed




text \<open>One advance when no allocation fails.\<close>

lemma soliter_next_stop:
  assumes "fst (srch (picosat it)) = PICOSAT_UNSATISFIABLE \<or>
           fst (srch (picosat it)) = PICOSAT_UNKNOWN"
  shows "soliter_next srch h it =
           (None, h\<lparr>sat_calls := Suc (sat_calls h)\<rparr>,
            it\<lparr>picosat := after_sat srch (picosat it)\<rparr>)"
  using assms codes_distinct by (auto simp: soliter_next_def picosat_sat_eq)








text \<open>A successful setup leaves no clause pending, whatever the input was.\<close>

lemma add_clause_pending:
  "add_clause h p item = (r, h', p') \<Longrightarrow> \<not> r < 0 \<Longrightarrow> pending p' = []"
  by (cases item)
     (auto simp: add_clause_def picosat_add_def PyErr_SetString_def split: prod.splits if_splits)

lemma add_cls_pending:
  "add_cls h p items = (r, h', p') \<Longrightarrow> \<not> r < 0 \<Longrightarrow> pending p = [] \<Longrightarrow> pending p' = []"
proof (induction items arbitrary: h p)
  case Nil
  then show ?case by simp
next
  case (Cons item items)
  obtain r1 h1 p1 where ac: "add_clause h p item = (r1, h1, p1)" using prod_cases3 by blast
  show ?case
  proof (cases "r1 < 0")
    case True
    with Cons.prems ac show ?thesis by simp
  next
    case False
    with Cons.prems ac have "add_cls h1 p1 items = (r, h', p')" by simp
    from Cons.IH[OF this Cons.prems(2) add_clause_pending[OF ac False]] show ?thesis .
  qed
qed

lemma setup_picosat_pending:
  assumes "setup_picosat h args = (Some p, h')"
  shows "pending p = []"
proof -
  obtain a where a: "args = Some a" using assms by (cases args) (auto simp: setup_picosat_def)
  obtain p0 h1 where mi: "picosat_minit h = (p0, h1)" by force
  define p3 where "p3 = (let p1 = picosat_set_verbosity p0 (verbose a);
                    p2 = (if vars a \<noteq> - 1 then picosat_adjust p1 (vars a) else p1)
                in (if prop_limit a \<noteq> 0
                          then picosat_set_propagation_limit p2 (prop_limit a) else p2))"
  have p3: "pending p3 = []"
    using mi by (auto simp: p3_def Let_def picosat_minit_def picosat_set_verbosity_def
        picosat_adjust_def picosat_set_propagation_limit_def)
  obtain r h2 p4 where ac: "add_clauses h1 p3 (objs h1 (clauses a)) = (r, h2, p4)"
    using prod_cases3 by blast
  have r: "\<not> r < 0" "p = p4"
    using assms a mi ac by (auto simp: setup_picosat_def p3_def Let_def split: if_splits)
  obtain items where items: "objs h1 (clauses a) = PyList items"
    using ac r(1) by (cases "objs h1 (clauses a)") (auto simp: add_clauses_def)
  from ac items have "add_cls h1 p3 items = (r, h2, p4)" by (simp add: add_clauses_eq)
  from add_cls_pending[OF this r(1) p3] r(2) show ?thesis by simp
qed

lemma itersolve_fresh:
  assumes "itersolve h args = (Some it, h1)"
  shows "mem it = None" "pending (picosat it) = []"
proof -
  obtain ok h0 where g: "PyObject_GC_New h = (ok, h0)" by force
  with assms obtain p where p: "setup_picosat h0 args = (Some p, h1)" "it = \<lparr>picosat = p, mem = None\<rparr>"
    by (auto simp: itersolve_def split: bool.splits option.splits prod.splits)
  show "mem it = None" using p(2) by simp
  show "pending (picosat it) = []" using setup_picosat_pending[OF p(1)] p(2) by simp
qed

lemma current_assignment: "is_assignment (max_var p) (current p)"
  by (simp add: is_assignment_def current_def picosat_variables_def)

lemma negation_current: "negation p = map uminus (current p)"
  by (simp add: negation_def current_def)

lemma current_decode:
  assumes "deref_total srch" "fst (srch p) = PICOSAT_SATISFIABLE"
  shows "decode (after_sat srch p) = current (after_sat srch p)"
proof -
  have "map uminus (decode (after_sat srch p)) = map uminus (current (after_sat srch p))"
    using negation_decode[OF assms] negation_current[of "after_sat srch p"] by simp
  then show ?thesis by (simp add: inj_map_eq_map[OF inj_uminus])
qed

text \<open>
  C3. The blocking clause. At any point of an enumeration, an advance that yields a
  list (so the engine answered SATISFIABLE) adds exactly one clause to the engine and
  terminates it: the clause holds, for every variable 1..N of the engine's range, the
  literal opposite to the variable's current value. The clause is false under the
  current assignment and true under every other assignment of the N variables. When
  the engine's values are all 1 or -1, the current assignment is the yielded list.
\<close>

theorem blocking_clause_added:
  assumes "itersolve h0 args = (Some it0, h1)"
    and "soliter_advance srch n h1 it0 = (os, h, it)"
    and "soliter_next srch h it = (Some r, h', it')"
  shows "\<exists>h2 p2.
           picosat_sat srch h (picosat it) = (PICOSAT_SATISFIABLE, h2, p2) \<and>
           is_assignment (max_var (picosat it)) (current p2) \<and>
           negation p2 = map uminus (current p2) \<and>
           added (picosat it') = added (picosat it) @ [negation p2] \<and>
           pending (picosat it') = [] \<and>
           max_var (picosat it') = max_var (picosat it) \<and>
           (\<forall>t. is_assignment (max_var (picosat it)) t \<longrightarrow>
                (clause_true t (negation p2) \<longleftrightarrow> t \<noteq> current p2)) \<and>
           (deref_total srch \<longrightarrow> ints_of r = Some (current p2))"
proof -
  let ?p = "picosat it"
  let ?p2 = "after_sat srch ?p"
  note f = itersolve_fresh[OF assms(1)]
  from soliter_advance_keeps[OF assms(2) f(1)] f(2)
  have inv: "mem it = None" "pending ?p = []" by auto
  from soliter_next_cases[OF inv(1) assms(3)]
  have r: "r = PyList (map PyLong (decode ?p2))" and sat: "fst (srch ?p) = PICOSAT_SATISFIABLE"
    and it': "it' = it\<lparr>picosat := load_clause ?p2 (negation ?p2)\<rparr>" by auto
  have asg: "is_assignment (max_var ?p) (current ?p2)"
    using current_assignment[of ?p2] by (simp add: after_sat_fields)
  have neg: "negation ?p2 = map uminus (current ?p2)" by (rule negation_current)
  have blk: "\<forall>t. is_assignment (max_var ?p) t \<longrightarrow>
      (clause_true t (negation ?p2) \<longleftrightarrow> t \<noteq> current ?p2)"
    unfolding neg using blocking_clause_true[OF asg] by blast
  have flds: "added (picosat it') = added ?p @ [negation ?p2]" "pending (picosat it') = []"
    "max_var (picosat it') = max_var ?p"
    using it' inv(2) by (simp_all add: load_negation_fields after_sat_fields)
  have io: "deref_total srch \<longrightarrow> ints_of r = Some (current ?p2)"
    unfolding r using current_decode[of srch ?p] sat by (simp only: ints_of_longs) simp
  have ps: "picosat_sat srch h ?p = (PICOSAT_SATISFIABLE, h\<lparr>sat_calls := Suc (sat_calls h)\<rparr>, ?p2)"
    using picosat_sat_eq[of srch h ?p] sat by simp
  show ?thesis
    apply (rule exI[of _ "h\<lparr>sat_calls := Suc (sat_calls h)\<rparr>"], rule exI[of _ ?p2])
    using ps io asg neg blk flds by (simp only:)
qed

theorem blocking_clause_added_witness:
  "(\<exists>h it r h' it'.
      soliter_advance reference_search 1
        (snd (itersolve (runtime0 (py_clauses [[1, 2]])) (Some default_args)))
        (the (fst (itersolve (runtime0 (py_clauses [[1, 2]])) (Some default_args))))
         = ([Yield (PyList [PyLong 1, PyLong 2])], h, it) \<and>
      soliter_next reference_search h it = (Some r, h', it') \<and>
      ints_of r = Some [1, - 2] \<and>
      added (picosat it') = added (picosat it) @ [[- 1, 2]] \<and>
      added (picosat it') = [[1, 2], [- 1, - 2], [- 1, 2]] \<and>
      pending (picosat it') = [] \<and>
      is_assignment 2 [1, - 2] \<and>
      (\<forall>t. is_assignment 2 t \<longrightarrow> (clause_true t [- 1, 2] \<longleftrightarrow> t \<noteq> [1, - 2])))"
proof -
  let ?hs = "runtime0 (py_clauses [[1, 2]])"
  let ?its = "the (fst (itersolve ?hs (Some default_args)))"
  let ?hi = "snd (itersolve ?hs (Some default_args))"
  let ?run = "soliter_advance reference_search 1 ?hi ?its"
  let ?h = "fst (snd ?run)"
  let ?it = "snd (snd ?run)"
  let ?st = "soliter_next reference_search ?h ?it"
  have i: "fst (itersolve ?hs (Some default_args)) \<noteq> None" by code_simp
  have i': "itersolve ?hs (Some default_args) = (Some ?its, ?hi)"
    using surjective_pairing[of "itersolve ?hs (Some default_args)"] option.collapse[OF i]
    by (simp only:)
  have os: "fst ?run = [Yield (PyList [PyLong 1, PyLong 2])]" by code_simp
  have run: "?run = ([Yield (PyList [PyLong 1, PyLong 2])], ?h, ?it)"
    using surjective_pairing[of ?run] surjective_pairing[of "snd ?run"]
    by (simp only: os)
  have r: "fst ?st = Some (PyList [PyLong 1, PyLong (- 2)])" by code_simp
  have st: "?st = (Some (PyList [PyLong 1, PyLong (- 2)]), fst (snd ?st), snd (snd ?st))"
    using surjective_pairing[of ?st] surjective_pairing[of "snd ?st"]
    by (simp only: r)
  have ad: "added (picosat (snd (snd ?st))) = [[1, 2], [- 1, - 2], [- 1, 2]]" by code_simp
  have n: "max_var (picosat ?it) = 2" by code_simp
  from blocking_clause_added[OF i' run st] reference_deref_total
  obtain p2 where c: "ints_of (PyList [PyLong 1, PyLong (- 2)]) = Some (current p2)"
    "is_assignment (max_var (picosat ?it)) (current p2)"
    "added (picosat (snd (snd ?st))) = added (picosat ?it) @ [negation p2]"
    "negation p2 = map uminus (current p2)"
    "pending (picosat (snd (snd ?st))) = []"
    "\<forall>t. is_assignment (max_var (picosat ?it)) t \<longrightarrow>
        (clause_true t (negation p2) \<longleftrightarrow> t \<noteq> current p2)"
    by blast
  have s: "current p2 = [1, - 2]" using c(1) by simp
  have ng: "negation p2 = [- 1, 2]" using c(4) s by simp
  show ?thesis
    apply (rule exI[of _ ?h], rule exI[of _ ?it])
    apply (rule exI[of _ "PyList [PyLong 1, PyLong (- 2)]"])
    apply (rule exI[of _ "fst (snd ?st)"], rule exI[of _ "snd (snd ?st)"])
    using run st c(2,3,5,6) ad unfolding s ng n by simp
qed




text \<open>Loading clauses changes nothing of the runtime but the error indicator.\<close>

lemma sans_err_set [simp]: "sans_err (h\<lparr>err := e\<rparr>) = sans_err h"
  by (simp add: sans_err_def)

lemma sans_err_fields:
  assumes "sans_err h' = sans_err h"
  shows "objs h' = objs h" "alloc_fail h' = alloc_fail h" "blocks h' = blocks h"
    "mallocs h' = mallocs h" "frees h' = frees h" "minits h' = minits h"
    "resets h' = resets h" "sat_calls h' = sat_calls h" "fault h' = fault h"
proof -
  have "objs (sans_err h') = objs (sans_err h)" "alloc_fail (sans_err h') = alloc_fail (sans_err h)"
    "blocks (sans_err h') = blocks (sans_err h)" "mallocs (sans_err h') = mallocs (sans_err h)"
    "frees (sans_err h') = frees (sans_err h)" "minits (sans_err h') = minits (sans_err h)"
    "resets (sans_err h') = resets (sans_err h)" "sat_calls (sans_err h') = sat_calls (sans_err h)"
    "fault (sans_err h') = fault (sans_err h)"
    using assms by simp_all
  then show "objs h' = objs h" "alloc_fail h' = alloc_fail h" "blocks h' = blocks h"
    "mallocs h' = mallocs h" "frees h' = frees h" "minits h' = minits h"
    "resets h' = resets h" "sat_calls h' = sat_calls h" "fault h' = fault h"
    by (simp_all add: sans_err_def)
qed

lemma PyLong_AsLong_sans: "PyLong_AsLong h n = (l, h2) \<Longrightarrow> sans_err h2 = sans_err h"
  by (auto simp: PyLong_AsLong_def PyErr_SetString_def split: if_splits)

lemma add_lits_sans: "add_lits h p items = (r, h', p') \<Longrightarrow> sans_err h' = sans_err h"
proof (induction items arbitrary: h p)
  case Nil
  then show ?case by simp
next
  case (Cons x items)
  show ?case
  proof (cases x)
    case (PyLong n)
    obtain l h2 where lh: "PyLong_AsLong h n = (l, h2)" by force
    note h2 = PyLong_AsLong_sans[OF lh]
    show ?thesis
    proof (cases "long_to_int l = 0")
      case True
      with Cons.prems PyLong lh h2 show ?thesis by (auto simp: PyErr_SetString_def)
    next
      case False
      with Cons.prems PyLong lh
      have "add_lits h2 (picosat_add p (long_to_int l)) items = (r, h', p')" by simp
      from Cons.IH[OF this] h2 show ?thesis by simp
    qed
  qed (use Cons.prems in \<open>auto simp: PyErr_SetString_def\<close>)
qed

lemma add_clause_sans: "add_clause h p item = (r, h', p') \<Longrightarrow> sans_err h' = sans_err h"
proof (cases item)
  case (PyList items)
  assume a: "add_clause h p item = (r, h', p')"
  obtain r1 h1 p1 where al: "add_lits h p items = (r1, h1, p1)" using prod_cases3 by blast
  from a PyList al have "h' = h1" by (auto simp: add_clause_eq split: if_splits)
  with add_lits_sans[OF al] show ?thesis by simp
qed (auto simp: add_clause_def PyErr_SetString_def)

lemma add_cls_sans: "add_cls h p items = (r, h', p') \<Longrightarrow> sans_err h' = sans_err h"
proof (induction items arbitrary: h p)
  case Nil
  then show ?case by simp
next
  case (Cons item items)
  obtain r1 h1 p1 where ac: "add_clause h p item = (r1, h1, p1)" using prod_cases3 by blast
  note s1 = add_clause_sans[OF ac]
  show ?case
  proof (cases "r1 < 0")
    case True
    with Cons.prems ac s1 show ?thesis by simp
  next
    case False
    with Cons.prems ac have "add_cls h1 p1 items = (r, h', p')" by simp
    from Cons.IH[OF this] s1 show ?thesis by simp
  qed
qed

lemma add_clauses_sans: "add_clauses h p x = (r, h', p') \<Longrightarrow> sans_err h' = sans_err h"
proof (cases x)
  case (PyList items)
  assume "add_clauses h p x = (r, h', p')"
  with PyList have "add_cls h p items = (r, h', p')" by (simp add: add_clauses_eq)
  then show ?thesis by (rule add_cls_sans)
qed (auto simp: add_clauses_def PyErr_SetString_def)

lemma setup_picosat_counts:
  assumes "setup_picosat h args = (Some p, h')"
  shows "sans_err h' = sans_err (h\<lparr>minits := Suc (minits h)\<rparr>)"
proof -
  obtain a where a: "args = Some a" using assms by (cases args) (auto simp: setup_picosat_def)
  obtain p0 h1 where mi: "picosat_minit h = (p0, h1)" by force
  have h1: "h1 = h\<lparr>minits := Suc (minits h)\<rparr>" using mi by (simp add: picosat_minit_def)
  define p3 where "p3 = (let p1 = picosat_set_verbosity p0 (verbose a);
                    p2 = (if vars a \<noteq> - 1 then picosat_adjust p1 (vars a) else p1)
                in (if prop_limit a \<noteq> 0
                          then picosat_set_propagation_limit p2 (prop_limit a) else p2))"
  obtain r h2 p4 where ac: "add_clauses h1 p3 (objs h1 (clauses a)) = (r, h2, p4)"
    using prod_cases3 by blast
  have "h' = h2"
    using assms a mi ac by (auto simp: setup_picosat_def p3_def Let_def split: if_splits)
  with add_clauses_sans[OF ac] h1 show ?thesis by simp
qed

lemma itersolve_counts:
  assumes "itersolve h args = (Some it, h1)" and "alloc_fail h = []"
  shows "alloc_fail h1 = []" "minits h1 = Suc (minits h)" "resets h1 = resets h"
    "frees h1 = frees h" "mallocs h1 = mallocs h" "fault h1 = fault h"
proof -
  have g: "PyObject_GC_New h = (True, h)"
    using assms(2) by (simp add: PyObject_GC_New_def host_alloc_def)
  with assms(1) obtain p where p: "setup_picosat h args = (Some p, h1)"
    by (cases "setup_picosat h args") (auto simp: itersolve_def split: option.splits)
  note f = sans_err_fields[OF setup_picosat_counts[OF p]]
  show "alloc_fail h1 = []" "minits h1 = Suc (minits h)" "resets h1 = resets h"
    "frees h1 = frees h" "mallocs h1 = mallocs h" "fault h1 = fault h"
    using f assms(2) by (simp_all add: sans_err_def)
qed

text \<open>What an advance does to the counters when no allocation fails.\<close>

lemma soliter_next_counts:
  assumes "alloc_fail h = []" "mem it = None" "soliter_next srch h it = (r, h', it')"
  shows "alloc_fail h' = []" "resets h' = resets h" "minits h' = minits h"
    "frees h' = frees h" "sat_calls h' = Suc (sat_calls h)"
    "mallocs h' = (if r = None then mallocs h else Suc (mallocs h))"
    "fault h' = fault h"
proof -
  let ?h1 = "h\<lparr>sat_calls := Suc (sat_calls h)\<rparr>"
  have a: "host_alloc ?h1 = (True, ?h1)" using assms(1) by (simp add: host_alloc_def)
  have "alloc_fail h' = [] \<and> resets h' = resets h \<and> minits h' = minits h \<and>
    frees h' = frees h \<and> sat_calls h' = Suc (sat_calls h) \<and>
    mallocs h' = (if r = None then mallocs h else Suc (mallocs h)) \<and> fault h' = fault h"
    using assms
    by (auto simp: soliter_next_def picosat_sat_eq get_solution_eq[OF a] blocksol_NULL[OF a]
        PyErr_Format_def split: if_splits)
  then show "alloc_fail h' = []" "resets h' = resets h" "minits h' = minits h"
    "frees h' = frees h" "sat_calls h' = Suc (sat_calls h)"
    "mallocs h' = (if r = None then mallocs h else Suc (mallocs h))"
    "fault h' = fault h" by simp_all
qed

lemma soliter_advance_counts:
  "soliter_advance srch n h it = (os, h', it') \<Longrightarrow> alloc_fail h = [] \<Longrightarrow> mem it = None \<Longrightarrow>
   alloc_fail h' = [] \<and> resets h' = resets h \<and> minits h' = minits h \<and> frees h' = frees h \<and>
   mem it' = None \<and> mallocs h' = mallocs h + yields os \<and>
   sat_calls h' = sat_calls h + length os \<and> fault h' = fault h"
proof (induction n arbitrary: h it os)
  case 0
  then show ?case by simp
next
  case (Suc n)
  obtain r h1 it1 where st: "soliter_next srch h it = (r, h1, it1)" using prod_cases3 by blast
  note c = soliter_next_counts[OF Suc.prems(2,3) st]
  note k = soliter_next_keeps[OF Suc.prems(3) st]
  show ?case
  proof (cases "r = None \<and> err h1 \<noteq> None")
    case True
    with Suc.prems st have "h' = h1" "it' = it1" "length os = 1" "yields os = 0" by auto
    with c k True show ?thesis by auto
  next
    case False
    obtain os2 where a: "soliter_advance srch n h1 it1 = (os2, h', it')"
      and os: "os = (case r of None \<Rightarrow> Stop | Some x \<Rightarrow> Yield x) # os2"
      using Suc.prems(1) st False by (auto split: option.splits prod.splits)
    from Suc.IH[OF a c(1) k(1)] c os show ?thesis by (auto split: option.splits)
  qed
qed

text \<open>
  C6, as stated, fails: for \<open>[[1], [-1]]\<close> the first advance gets UNSATISFIABLE and
  ends the iteration, and so does the second. After both, the session that
  \<open>itersolve\<close> created has not been reset, and the engine has been called twice: the
  cursor has no exhausted state and does not release the session on exhaustion.
\<close>

theorem exhaustion_release_counterexample:
  "fst (soliter_advance reference_search 2
       (snd (itersolve (runtime0 (py_clauses [[1], [- 1]])) (Some default_args)))
       (the (fst (itersolve (runtime0 (py_clauses [[1], [- 1]])) (Some default_args)))))
     = [Stop, Stop] \<and>
   minits (fst (snd (soliter_advance reference_search 2
       (snd (itersolve (runtime0 (py_clauses [[1], [- 1]])) (Some default_args)))
       (the (fst (itersolve (runtime0 (py_clauses [[1], [- 1]])) (Some default_args))))))) = 1 \<and>
   resets (fst (snd (soliter_advance reference_search 2
       (snd (itersolve (runtime0 (py_clauses [[1], [- 1]])) (Some default_args)))
       (the (fst (itersolve (runtime0 (py_clauses [[1], [- 1]])) (Some default_args))))))) = 0 \<and>
   sat_calls (fst (snd (soliter_advance reference_search 2
       (snd (itersolve (runtime0 (py_clauses [[1], [- 1]])) (Some default_args)))
       (the (fst (itersolve (runtime0 (py_clauses [[1], [- 1]])) (Some default_args))))))) = 2"
  by code_simp

text \<open>
  C6, amended. An advance that gets UNSATISFIABLE or UNKNOWN from the engine returns
  NULL and leaves the runtime as it was but for the count of engine calls: the error
  indicator is untouched (the iteration ends), the session is not reset, and of the
  cursor only the engine's own state changes. The session is released exactly once,
  by \<open>soliter_dealloc\<close>: after \<open>itersolve\<close> and any number of advances in which no
  allocation fails, one session has been created and none reset, and the deallocator
  resets it once.
\<close>

theorem exhaustion_keeps_session:
  "(fst (srch (picosat it)) = PICOSAT_UNSATISFIABLE \<or>
    fst (srch (picosat it)) = PICOSAT_UNKNOWN \<longrightarrow>
      (\<exists>p'. soliter_next srch h it =
              (None, h\<lparr>sat_calls := Suc (sat_calls h)\<rparr>, it\<lparr>picosat := p'\<rparr>) \<and>
            added p' = added (picosat it) \<and> pending p' = pending (picosat it) \<and>
            max_var p' = max_var (picosat it))) \<and>
   (itersolve h0 args = (Some it0, h1) \<and> alloc_fail h0 = [] \<and>
    soliter_advance srch n h1 it0 = (os, h2, it2) \<longrightarrow>
      minits h2 = Suc (minits h0) \<and> resets h2 = resets h0 \<and>
      minits (soliter_dealloc h2 it2) = Suc (minits h0) \<and>
      resets (soliter_dealloc h2 it2) = Suc (resets h0))"
proof (intro conjI impI)
  assume "fst (srch (picosat it)) = PICOSAT_UNSATISFIABLE \<or>
    fst (srch (picosat it)) = PICOSAT_UNKNOWN"
  with soliter_next_stop[of srch it h]
  show "\<exists>p'. soliter_next srch h it =
              (None, h\<lparr>sat_calls := Suc (sat_calls h)\<rparr>, it\<lparr>picosat := p'\<rparr>) \<and>
            added p' = added (picosat it) \<and> pending p' = pending (picosat it) \<and>
            max_var p' = max_var (picosat it)"
    by (auto simp: after_sat_fields)
next
  assume a: "itersolve h0 args = (Some it0, h1) \<and> alloc_fail h0 = [] \<and>
    soliter_advance srch n h1 it0 = (os, h2, it2)"
  then have i: "itersolve h0 args = (Some it0, h1)" and al: "alloc_fail h0 = []"
    and run: "soliter_advance srch n h1 it0 = (os, h2, it2)" by simp_all
  note c = itersolve_counts[OF i al]
  note f = itersolve_fresh[OF i]
  from soliter_advance_counts[OF run c(1) f(1)] c
  have h2: "minits h2 = Suc (minits h0)" "resets h2 = resets h0" "mem it2 = None" by simp_all
  then show "minits h2 = Suc (minits h0)" "resets h2 = resets h0"
      "minits (soliter_dealloc h2 it2) = Suc (minits h0)"
      "resets (soliter_dealloc h2 it2) = Suc (resets h0)"
    by (simp_all add: soliter_dealloc_def picosat_reset_def)
qed

theorem exhaustion_keeps_session_witness:
  "fst (reference_search (picosat
      (the (fst (itersolve (runtime0 (py_clauses [[1], [- 1]])) (Some default_args))))))
     = PICOSAT_UNSATISFIABLE \<and>
   fst (soliter_next reference_search
      (snd (itersolve (runtime0 (py_clauses [[1], [- 1]])) (Some default_args)))
      (the (fst (itersolve (runtime0 (py_clauses [[1], [- 1]])) (Some default_args))))) = None \<and>
   alloc_fail (runtime0 (py_clauses [[1], [- 1]])) = [] \<and>
   resets (soliter_dealloc
     (fst (snd (soliter_advance reference_search 3
       (snd (itersolve (runtime0 (py_clauses [[1], [- 1]])) (Some default_args)))
       (the (fst (itersolve (runtime0 (py_clauses [[1], [- 1]])) (Some default_args)))))))
     (snd (snd (soliter_advance reference_search 3
       (snd (itersolve (runtime0 (py_clauses [[1], [- 1]])) (Some default_args)))
       (the (fst (itersolve (runtime0 (py_clauses [[1], [- 1]])) (Some default_args)))))))) = 1"
proof -
  let ?hs = "runtime0 (py_clauses [[1], [- 1]])"
  let ?its = "the (fst (itersolve ?hs (Some default_args)))"
  let ?hi = "snd (itersolve ?hs (Some default_args))"
  let ?run = "soliter_advance reference_search 3 ?hi ?its"
  have u: "fst (reference_search (picosat ?its)) = PICOSAT_UNSATISFIABLE" by code_simp
  have i: "fst (itersolve ?hs (Some default_args)) \<noteq> None" by code_simp
  have i': "itersolve ?hs (Some default_args) = (Some ?its, ?hi)"
    using surjective_pairing[of "itersolve ?hs (Some default_args)"] option.collapse[OF i]
    by (simp only:)
  have al: "alloc_fail ?hs = []" by (simp add: runtime0_def)
  have r0: "resets ?hs = 0" by (simp add: runtime0_def)
  have run: "?run = (fst ?run, fst (snd ?run), snd (snd ?run))" by simp
  note th = exhaustion_keeps_session[of reference_search ?its ?hi ?hs "Some default_args" ?its ?hi
      3 "fst ?run" "fst (snd ?run)" "snd (snd ?run)"]
  from th u have "fst (soliter_next reference_search ?hi ?its) = None" by auto
  moreover from th i' al run have "resets (soliter_dealloc (fst (snd ?run)) (snd (snd ?run))) = 1"
    unfolding r0 by simp
  ultimately show ?thesis using u al by simp
qed

text \<open>
  C7: the scratch buffer. \<open>blocksol\<close> receives \<open>it->mem\<close> by value, so the buffer it
  allocates never reaches the cursor. For \<open>[[1, 2]]\<close>, two advances yield two
  solutions and allocate two buffers; \<open>mem\<close> is still NULL, the deallocator frees
  nothing, and both buffers stay allocated.
\<close>

theorem scratch_buffer_allocated_per_solution:
  "fst (soliter_advance reference_search 2
       (snd (itersolve (runtime0 (py_clauses [[1, 2]])) (Some default_args)))
       (the (fst (itersolve (runtime0 (py_clauses [[1, 2]])) (Some default_args)))))
     = [Yield (PyList [PyLong 1, PyLong 2]), Yield (PyList [PyLong 1, PyLong (- 2)])] \<and>
   mallocs (fst (snd (soliter_advance reference_search 2
       (snd (itersolve (runtime0 (py_clauses [[1, 2]])) (Some default_args)))
       (the (fst (itersolve (runtime0 (py_clauses [[1, 2]])) (Some default_args))))))) = 2 \<and>
   mem (snd (snd (soliter_advance reference_search 2
       (snd (itersolve (runtime0 (py_clauses [[1, 2]])) (Some default_args)))
       (the (fst (itersolve (runtime0 (py_clauses [[1, 2]])) (Some default_args))))))) = None \<and>
   frees (soliter_dealloc
     (fst (snd (soliter_advance reference_search 2
       (snd (itersolve (runtime0 (py_clauses [[1, 2]])) (Some default_args)))
       (the (fst (itersolve (runtime0 (py_clauses [[1, 2]])) (Some default_args)))))))
     (snd (snd (soliter_advance reference_search 2
       (snd (itersolve (runtime0 (py_clauses [[1, 2]])) (Some default_args)))
       (the (fst (itersolve (runtime0 (py_clauses [[1, 2]])) (Some default_args)))))))) = 0 \<and>
   blocks (soliter_dealloc
     (fst (snd (soliter_advance reference_search 2
       (snd (itersolve (runtime0 (py_clauses [[1, 2]])) (Some default_args)))
       (the (fst (itersolve (runtime0 (py_clauses [[1, 2]])) (Some default_args)))))))
     (snd (snd (soliter_advance reference_search 2
       (snd (itersolve (runtime0 (py_clauses [[1, 2]])) (Some default_args)))
       (the (fst (itersolve (runtime0 (py_clauses [[1, 2]])) (Some default_args)))))))) 0
     = Some [0, 1, 1] \<and>
   blocks (soliter_dealloc
     (fst (snd (soliter_advance reference_search 2
       (snd (itersolve (runtime0 (py_clauses [[1, 2]])) (Some default_args)))
       (the (fst (itersolve (runtime0 (py_clauses [[1, 2]])) (Some default_args)))))))
     (snd (snd (soliter_advance reference_search 2
       (snd (itersolve (runtime0 (py_clauses [[1, 2]])) (Some default_args)))
       (the (fst (itersolve (runtime0 (py_clauses [[1, 2]])) (Some default_args)))))))) 1
     = Some [0, 1, - 1]"
  by code_simp

text \<open>What a successful setup has loaded.\<close>

lemma as_c_int_AsLong: "long_to_int (fst (PyLong_AsLong h n)) = as_c_int n"
  by (simp add: PyLong_AsLong_def as_c_int_def)

lemma as_c_int_valid: "valid_literal l \<Longrightarrow> as_c_int l = l"
  unfolding valid_literal_def as_c_int_def long_to_int_def by (auto simp: abs_less_iff)

lemma add_lits_loaded:
  "add_lits h p items = (r, h', p') \<Longrightarrow> \<not> r < 0 \<Longrightarrow>
   \<exists>c. items = map PyLong c \<and> p' = foldl picosat_add p (map as_c_int c) \<and>
       (\<forall>l \<in> set c. as_c_int l \<noteq> 0)"
proof (induction items arbitrary: h p)
  case Nil
  then show ?case by simp
next
  case (Cons x items)
  from Cons.prems obtain n where x: "x = PyLong n" by (cases x) auto
  obtain l h2 where lh: "PyLong_AsLong h n = (l, h2)" by force
  have l: "long_to_int l = as_c_int n" using as_c_int_AsLong[of h n] lh by simp
  have nz: "as_c_int n \<noteq> 0" using Cons.prems x lh l by (auto split: if_splits)
  with Cons.prems x lh l
  have "add_lits h2 (picosat_add p (as_c_int n)) items = (r, h', p')" by simp
  from Cons.IH[OF this Cons.prems(2)]
  obtain c where c: "items = map PyLong c"
    "p' = foldl picosat_add (picosat_add p (as_c_int n)) (map as_c_int c)"
    "\<forall>l \<in> set c. as_c_int l \<noteq> 0" by blast
  show ?case
    by (rule exI[of _ "n # c"]) (use x c nz in simp)
qed

lemma add_clause_loaded:
  assumes "add_clause h p item = (r, h', p')" "\<not> r < 0"
  shows "\<exists>c. item = py_clause c \<and> p' = load_clause p (map as_c_int c) \<and>
       (\<forall>l \<in> set c. as_c_int l \<noteq> 0)"
proof -
  from assms obtain items where it: "item = PyList items"
    by (cases item) (auto simp: add_clause_def)
  obtain r1 h1 p1 where al: "add_lits h p items = (r1, h1, p1)" using prod_cases3 by blast
  from assms it al have r1: "\<not> r1 < 0" "p' = picosat_add p1 0"
    by (auto simp: add_clause_eq split: if_splits)
  from add_lits_loaded[OF al r1(1)] r1(2) it show ?thesis
    by (auto simp: py_clause_def load_clause_def)
qed

lemma add_cls_loaded:
  "add_cls h p items = (r, h', p') \<Longrightarrow> \<not> r < 0 \<Longrightarrow>
   \<exists>cls. items = map py_clause cls \<and> p' = foldl load_clause p (map (map as_c_int) cls) \<and>
       (\<forall>c \<in> set cls. \<forall>l \<in> set c. as_c_int l \<noteq> 0)"
proof (induction items arbitrary: h p)
  case Nil
  then show ?case by simp
next
  case (Cons item items)
  obtain r1 h1 p1 where ac: "add_clause h p item = (r1, h1, p1)" using prod_cases3 by blast
  have r1: "\<not> r1 < 0" using Cons.prems ac by (auto split: if_splits)
  from add_clause_loaded[OF ac r1]
  obtain c where c: "item = py_clause c" "p1 = load_clause p (map as_c_int c)"
    "\<forall>l \<in> set c. as_c_int l \<noteq> 0" by blast
  from Cons.prems ac r1 have "add_cls h1 p1 items = (r, h', p')" by simp
  from Cons.IH[OF this Cons.prems(2)]
  obtain cls where cls: "items = map py_clause cls"
    "p' = foldl load_clause p1 (map (map as_c_int) cls)"
    "\<forall>c \<in> set cls. \<forall>l \<in> set c. as_c_int l \<noteq> 0" by blast
  show ?case
    by (rule exI[of _ "c # cls"]) (use c cls in simp)
qed

lemma setup_picosat_loaded:
  assumes "setup_picosat h (Some a) = (Some p, h1)"
  shows "\<exists>cls. objs h (clauses a) = py_clauses cls \<and> added p = map (map as_c_int) cls \<and>
           pending p = [] \<and>
           limit p = (if prop_limit a \<noteq> 0 then Some (prop_limit a) else None) \<and>
           (valid_clauses cls \<longrightarrow> added p = cls)"
proof -
  obtain p0 h0 where mi: "picosat_minit h = (p0, h0)" by force
  have h0: "objs h0 = objs h" and
    p0: "p0 = \<lparr>verbosity = 0, max_var = 0, limit = None, added = [], pending = [],
       state = READY, vals = (\<lambda>i. 0)\<rparr>"
    using mi by (auto simp: picosat_minit_def)
  define p3 where "p3 = (let p1 = picosat_set_verbosity p0 (verbose a);
                    p2 = (if vars a \<noteq> - 1 then picosat_adjust p1 (vars a) else p1)
                in (if prop_limit a \<noteq> 0
                          then picosat_set_propagation_limit p2 (prop_limit a) else p2))"
  have p3: "added p3 = []" "pending p3 = []"
    "limit p3 = (if prop_limit a \<noteq> 0 then Some (prop_limit a) else None)"
    by (simp_all add: p3_def p0 Let_def picosat_set_verbosity_def picosat_adjust_def
        picosat_set_propagation_limit_def)
  obtain r h2 p4 where ac: "add_clauses h0 p3 (objs h0 (clauses a)) = (r, h2, p4)"
    using prod_cases3 by blast
  have r: "\<not> r < 0" "p = p4"
    using assms mi ac by (auto simp: setup_picosat_def p3_def Let_def split: if_splits)
  obtain items where items: "objs h0 (clauses a) = PyList items"
    using ac r(1) by (cases "objs h0 (clauses a)") (auto simp: add_clauses_def)
  from ac items have "add_cls h0 p3 items = (r, h2, p4)" by (simp add: add_clauses_eq)
  from add_cls_loaded[OF this r(1)]
  obtain cls where cls: "items = map py_clause cls"
    "p4 = foldl load_clause p3 (map (map as_c_int) cls)"
    "\<forall>c \<in> set cls. \<forall>l \<in> set c. as_c_int l \<noteq> 0" by blast
  have nz: "\<forall>c \<in> set (map (map as_c_int) cls). \<forall>l \<in> set c. l \<noteq> 0" using cls(3) by auto
  note f = load_clauses_fields[OF nz p3(2)]
  have v: "valid_clauses cls \<longrightarrow> map (map as_c_int) cls = cls"
    by (auto simp: valid_clauses_def as_c_int_valid intro!: map_idI)
  have ad: "added p = map (map as_c_int) cls" "pending p = []"
    "limit p = (if prop_limit a \<noteq> 0 then Some (prop_limit a) else None)"
    using f p3 r(2) cls(2) by simp_all
  have ob: "objs h (clauses a) = py_clauses cls"
    using items cls(1) h0 by (simp add: py_clauses_def)
  have "valid_clauses cls \<longrightarrow> added p = cls" using v ad(1) by simp
  with ad ob show ?thesis by blast
qed

text \<open>
  C8. The propagation limit. When the engine's answer to the loaded problem is UNKNOWN,
  \<open>solve\<close> never returns UNSAT, and returns UNKNOWN unless allocating the string
  fails. With an engine that answers UNKNOWN only under an installed limit, a call
  with \<open>prop_limit\<close> 0 installs none and never returns UNKNOWN; if moreover the engine
  has no fourth result code and no allocation fails, a call that passes validation
  returns a list of integers or UNSAT.
\<close>

theorem unknown_needs_limit:
  "(setup_picosat h args = (Some p, h1) \<and> fst (srch p) = PICOSAT_UNKNOWN \<longrightarrow>
      fst (solve srch h args) \<noteq> Some (PyUnicode ''UNSAT'') \<and>
      (alloc_fail h = [] \<longrightarrow> fst (solve srch h args) = Some (PyUnicode ''UNKNOWN''))) \<and>
   (unknown_limited srch \<and> prop_limit a = 0 \<longrightarrow>
      fst (solve srch h (Some a)) \<noteq> Some (PyUnicode ''UNKNOWN'')) \<and>
   (unknown_limited srch \<and> codes_ok srch \<and> prop_limit a = 0 \<and> alloc_fail h = [] \<and>
    setup_picosat h (Some a) = (Some p, h1) \<longrightarrow>
      (\<exists>sol. fst (solve srch h (Some a)) = Some (PyList (map PyLong sol))) \<or>
      fst (solve srch h (Some a)) = Some (PyUnicode ''UNSAT''))"
proof (intro conjI impI)
  assume a: "setup_picosat h args = (Some p, h1) \<and> fst (srch p) = PICOSAT_UNKNOWN"
  let ?h2 = "h1\<lparr>sat_calls := Suc (sat_calls h1)\<rparr>"
  have s: "solve srch h args =
      (case PyUnicode_FromString ?h2 ''UNKNOWN'' of (result, h3) \<Rightarrow> (result, picosat_reset h3))"
    using a codes_distinct by (simp add: solve_def picosat_sat_eq)
  show "fst (solve srch h args) \<noteq> Some (PyUnicode ''UNSAT'')"
    unfolding s by (simp add: PyUnicode_FromString_def split: prod.splits bool.splits)
  show "alloc_fail h = [] \<Longrightarrow> fst (solve srch h args) = Some (PyUnicode ''UNKNOWN'')"
  proof -
    assume "alloc_fail h = []"
    moreover have "alloc_fail h1 = alloc_fail h"
      using sans_err_fields(2)[OF setup_picosat_counts[of h args p h1]] a by simp
    ultimately have "host_alloc ?h2 = (True, ?h2)" by (simp add: host_alloc_def)
    then show ?thesis unfolding s by (simp add: PyUnicode_FromString_def)
  qed
next
  assume a: "unknown_limited srch \<and> prop_limit a = 0"
  show "fst (solve srch h (Some a)) \<noteq> Some (PyUnicode ''UNKNOWN'')"
  proof (cases "setup_picosat h (Some a)")
    case (Pair po h1)
    show ?thesis
    proof (cases po)
      case None
      with Pair show ?thesis by (simp add: solve_def)
    next
      case (Some p)
      from setup_picosat_loaded[of h a p h1] Pair Some a have "limit p = None" by auto
      then have nu: "fst (srch p) \<noteq> PICOSAT_UNKNOWN"
        using a unfolding unknown_limited_def by blast
      let ?h2 = "h1\<lparr>sat_calls := Suc (sat_calls h1)\<rparr>"
      obtain ok h3 where al: "host_alloc ?h2 = (ok, h3)" by force
      show ?thesis
        using Pair Some nu get_solution_eq[OF al, of "after_sat srch p"] al
        by (auto simp: solve_def picosat_sat_eq PyUnicode_FromString_def
            split: if_splits bool.splits)
    qed
  qed
next
  assume a: "unknown_limited srch \<and> codes_ok srch \<and> prop_limit a = 0 \<and> alloc_fail h = [] \<and>
    setup_picosat h (Some a) = (Some p, h1)"
  from setup_picosat_loaded[of h a p h1] a have "limit p = None" by auto
  then have nu: "fst (srch p) \<noteq> PICOSAT_UNKNOWN"
    using a unfolding unknown_limited_def by blast
  then have c: "fst (srch p) = PICOSAT_SATISFIABLE \<or> fst (srch p) = PICOSAT_UNSATISFIABLE"
    using a unfolding codes_ok_def by blast
  let ?h2 = "h1\<lparr>sat_calls := Suc (sat_calls h1)\<rparr>"
  have "alloc_fail h1 = alloc_fail h"
    using sans_err_fields(2)[OF setup_picosat_counts[of h "Some a" p h1]] a by simp
  then have al: "host_alloc ?h2 = (True, ?h2)" using a by (simp add: host_alloc_def)
  show "(\<exists>sol. fst (solve srch h (Some a)) = Some (PyList (map PyLong sol))) \<or>
      fst (solve srch h (Some a)) = Some (PyUnicode ''UNSAT'')"
    using a c get_solution_eq[OF al, of "after_sat srch p"] al codes_distinct
    by (auto simp: solve_def picosat_sat_eq PyUnicode_FromString_def)
qed

theorem unknown_needs_limit_witness:
  "fst (reference_search (the (fst (setup_picosat (runtime0 (py_clauses [[1, 2]]))
          (Some (default_args\<lparr>prop_limit := 1\<rparr>)))))) = PICOSAT_UNKNOWN \<and>
   fst (solve reference_search (runtime0 (py_clauses [[1, 2]]))
          (Some (default_args\<lparr>prop_limit := 1\<rparr>))) = Some (PyUnicode ''UNKNOWN'') \<and>
   prop_limit default_args = 0 \<and>
   fst (solve reference_search (runtime0 (py_clauses [[1, 2]])) (Some default_args))
     \<noteq> Some (PyUnicode ''UNKNOWN'') \<and>
   ((\<exists>sol. fst (solve reference_search (runtime0 (py_clauses [[1, 2]])) (Some default_args))
             = Some (PyList (map PyLong sol))) \<or>
    fst (solve reference_search (runtime0 (py_clauses [[1, 2]])) (Some default_args))
      = Some (PyUnicode ''UNSAT''))"
proof -
  let ?hs = "runtime0 (py_clauses [[1, 2]])"
  let ?al = "Some (default_args\<lparr>prop_limit := 1\<rparr>)"
  let ?ad = "Some default_args"
  have al: "alloc_fail ?hs = []" by (simp add: runtime0_def)
  have pl: "prop_limit default_args = 0" by (simp add: default_args_def)
  have s1: "fst (setup_picosat ?hs ?al) \<noteq> None" by code_simp
  have s1': "setup_picosat ?hs ?al = (Some (the (fst (setup_picosat ?hs ?al))), snd (setup_picosat ?hs ?al))"
    using surjective_pairing[of "setup_picosat ?hs ?al"] option.collapse[OF s1] by (simp only:)
  have u: "fst (reference_search (the (fst (setup_picosat ?hs ?al)))) = PICOSAT_UNKNOWN"
    by code_simp
  have s2: "fst (setup_picosat ?hs ?ad) \<noteq> None" by code_simp
  have s2': "setup_picosat ?hs ?ad = (Some (the (fst (setup_picosat ?hs ?ad))), snd (setup_picosat ?hs ?ad))"
    using surjective_pairing[of "setup_picosat ?hs ?ad"] option.collapse[OF s2] by (simp only:)
  note t1 = unknown_needs_limit[of ?hs ?al "the (fst (setup_picosat ?hs ?al))"
      "snd (setup_picosat ?hs ?al)" reference_search default_args]
  note t2 = unknown_needs_limit[of ?hs ?ad "the (fst (setup_picosat ?hs ?ad))"
      "snd (setup_picosat ?hs ?ad)" reference_search default_args]
  from t1 s1' u al
  have a: "fst (solve reference_search ?hs ?al) = Some (PyUnicode ''UNKNOWN'')" by blast
  from t2 reference_unknown_limited pl
  have b: "fst (solve reference_search ?hs ?ad) \<noteq> Some (PyUnicode ''UNKNOWN'')" by blast
  from t2 reference_unknown_limited reference_codes_ok pl al s2'
  have c: "(\<exists>sol. fst (solve reference_search ?hs ?ad) = Some (PyList (map PyLong sol))) \<or>
    fst (solve reference_search ?hs ?ad) = Some (PyUnicode ''UNSAT'')" by blast
  from u a pl b c show ?thesis by blast
qed

text \<open>Nothing that an advance does reads or writes the objects of the caller.\<close>

lemma host_alloc_objs:
  "host_alloc (h\<lparr>objs := ob\<rparr>) = (fst (host_alloc h), (snd (host_alloc h))\<lparr>objs := ob\<rparr>)"
  by (simp add: host_alloc_def split: list.splits)

lemma poke_objs: "poke (h\<lparr>objs := ob\<rparr>) a i v = (poke h a i v)\<lparr>objs := ob\<rparr>"
  by (simp add: poke_def split: option.splits)

lemma peek_objs: "peek (h\<lparr>objs := ob\<rparr>) a i = peek h a i"
  by (simp add: peek_def)

lemma blocksol_fill_objs:
  "blocksol_fill (h\<lparr>objs := ob\<rparr>) p a n i = (blocksol_fill h p a n i)\<lparr>objs := ob\<rparr>"
proof (induction "nat (n + 1 - i)" arbitrary: i h)
  case 0
  then have "\<not> i \<le> n" by simp
  then show ?case by (subst (1 2) blocksol_fill.simps) simp
next
  case (Suc k)
  then have le: "i \<le> n" by simp
  have IH: "\<And>h. blocksol_fill (h\<lparr>objs := ob\<rparr>) p a n (i + 1)
              = (blocksol_fill h p a n (i + 1))\<lparr>objs := ob\<rparr>"
    using Suc(1)[of "i + 1"] Suc(2) by simp
  show ?case
    using le by (subst (1 2) blocksol_fill.simps) (simp add: poke_objs IH)
qed

lemma blocksol_add_objs: "blocksol_add (h\<lparr>objs := ob\<rparr>) p a n i = blocksol_add h p a n i"
proof (induction "nat (n + 1 - i)" arbitrary: i p)
  case 0
  then have "\<not> i \<le> n" by simp
  then show ?case by (subst (1 2) blocksol_add.simps) simp
next
  case (Suc k)
  then have le: "i \<le> n" by simp
  have IH: "\<And>p. blocksol_add (h\<lparr>objs := ob\<rparr>) p a n (i + 1) = blocksol_add h p a n (i + 1)"
    using Suc(1)[of "i + 1"] Suc(2) by simp
  show ?case
    using le by (subst (1 2) blocksol_add.simps) (simp add: peek_objs IH)
qed

lemma PyMem_Malloc_objs:
  "PyMem_Malloc (h\<lparr>objs := ob\<rparr>) n =
     (fst (PyMem_Malloc h n), (snd (PyMem_Malloc h n))\<lparr>objs := ob\<rparr>)"
  by (simp add: PyMem_Malloc_def host_alloc_objs split: prod.splits bool.splits)

lemma PyErr_NoMemory_objs: "PyErr_NoMemory (h\<lparr>objs := ob\<rparr>) = (PyErr_NoMemory h)\<lparr>objs := ob\<rparr>"
  by (simp add: PyErr_NoMemory_def)

lemma blocksol_objs:
  "blocksol (h\<lparr>objs := ob\<rparr>) p m =
     (case blocksol h p m of (r, h', p') \<Rightarrow> (r, h'\<lparr>objs := ob\<rparr>, p'))"
proof (cases m)
  case None
  obtain x h1 where pm: "PyMem_Malloc h (nat (picosat_variables p + 1)) = (x, h1)" by force
  then have pm': "PyMem_Malloc (h\<lparr>objs := ob\<rparr>) (nat (picosat_variables p + 1))
      = (x, h1\<lparr>objs := ob\<rparr>)" by (simp add: PyMem_Malloc_objs)
  show ?thesis
    unfolding blocksol_def None
    by (cases x)
       (simp_all only: pm pm' Let_def option.case prod.case blocksol_fill_objs blocksol_add_objs
          PyErr_NoMemory_objs)
next
  case (Some a)
  show ?thesis
    unfolding blocksol_def Some
    by (simp only: Let_def option.case prod.case blocksol_fill_objs blocksol_add_objs)
qed

lemma get_solution_loop_objs:
  "get_solution_loop (h\<lparr>objs := ob\<rparr>) p items n i =
     (case get_solution_loop h p items n i of (r, h') \<Rightarrow> (r, h'\<lparr>objs := ob\<rparr>))"
proof (induction "nat (n + 1 - i)" arbitrary: i items)
  case 0
  then have "\<not> i \<le> n" by simp
  then show ?case by (subst (1 2) get_solution_loop.simps) simp
next
  case (Suc k)
  then have le: "i \<le> n" by simp
  have IH: "\<And>items. get_solution_loop (h\<lparr>objs := ob\<rparr>) p items n (i + 1) =
     (case get_solution_loop h p items n (i + 1) of (r, h') \<Rightarrow> (r, h'\<lparr>objs := ob\<rparr>))"
    using Suc(1)[of "i + 1"] Suc(2) by simp
  show ?case
    using le
    by (subst (1 2) get_solution_loop.simps)
       (simp add: IH PyList_SetItem_def Let_def PyErr_SetString_def picosat_reset_def)
qed

lemma picosat_reset_objs: "picosat_reset (h\<lparr>objs := ob\<rparr>) = (picosat_reset h)\<lparr>objs := ob\<rparr>"
  by (simp add: picosat_reset_def)

lemma PyList_New_objs:
  "PyList_New (h\<lparr>objs := ob\<rparr>) n = (fst (PyList_New h n), (snd (PyList_New h n))\<lparr>objs := ob\<rparr>)"
  by (simp add: PyList_New_def host_alloc_objs PyErr_NoMemory_def split: prod.splits bool.splits)

lemma get_solution_objs:
  "get_solution (h\<lparr>objs := ob\<rparr>) p =
     (case get_solution h p of (r, h') \<Rightarrow> (r, h'\<lparr>objs := ob\<rparr>))"
proof -
  obtain x h1 where pl: "PyList_New h (nat (picosat_variables p)) = (x, h1)" by force
  then have pl': "PyList_New (h\<lparr>objs := ob\<rparr>) (nat (picosat_variables p)) = (x, h1\<lparr>objs := ob\<rparr>)"
    by (simp add: PyList_New_objs)
  show ?thesis
    unfolding get_solution_def
    by (cases x)
       (simp_all only: pl pl' Let_def option.case prod.case picosat_reset_objs
          get_solution_loop_objs)
qed

lemma picosat_sat_objs:
  "picosat_sat srch (h\<lparr>objs := ob\<rparr>) p =
     (case picosat_sat srch h p of (res, h', p') \<Rightarrow> (res, h'\<lparr>objs := ob\<rparr>, p'))"
  by (simp add: picosat_sat_def split: prod.splits)

lemma PyErr_SetString_objs:
  "PyErr_SetString (h\<lparr>objs := ob\<rparr>) e m = (PyErr_SetString h e m)\<lparr>objs := ob\<rparr>"
  by (simp add: PyErr_SetString_def)

lemma PyErr_Format_objs:
  "PyErr_Format (h\<lparr>objs := ob\<rparr>) e m xs = (PyErr_Format h e m xs)\<lparr>objs := ob\<rparr>"
  by (simp add: PyErr_Format_def)

lemma soliter_next_objs:
  "soliter_next srch (h\<lparr>objs := ob\<rparr>) it =
     (case soliter_next srch h it of (r, h', it') \<Rightarrow> (r, h'\<lparr>objs := ob\<rparr>, it'))"
proof -
  obtain res h1 p1 where ps: "picosat_sat srch h (picosat it) = (res, h1, p1)"
    using prod_cases3 by blast
  then have ps': "picosat_sat srch (h\<lparr>objs := ob\<rparr>) (picosat it) = (res, h1\<lparr>objs := ob\<rparr>, p1)"
    by (simp add: picosat_sat_objs)
  obtain g h2 where gs: "get_solution h1 p1 = (g, h2)" by force
  then have gs': "get_solution (h1\<lparr>objs := ob\<rparr>) p1 = (g, h2\<lparr>objs := ob\<rparr>)"
    by (simp add: get_solution_objs)
  obtain r h3 p3 where bs: "blocksol h2 p1 (mem it) = (r, h3, p3)" using prod_cases3 by blast
  then have bs': "blocksol (h2\<lparr>objs := ob\<rparr>) p1 (mem it) = (r, h3\<lparr>objs := ob\<rparr>, p3)"
    by (simp add: blocksol_objs)
  show ?thesis
    unfolding soliter_next_def
    by (cases g)
       (simp_all only: ps ps' gs gs' bs bs' prod.case option.case PyErr_SetString_objs
          PyErr_Format_objs if_distrib[of "\<lambda>x. case x of (r, h', it') \<Rightarrow> (r, h'\<lparr>objs := ob\<rparr>, it')"]
          split: if_splits)
qed

lemma soliter_advance_objs:
  "soliter_advance srch n (h\<lparr>objs := ob\<rparr>) it =
     (case soliter_advance srch n h it of (os, h', it') \<Rightarrow> (os, h'\<lparr>objs := ob\<rparr>, it'))"
proof (induction n arbitrary: h it)
  case 0
  show ?case by simp
next
  case (Suc n)
  obtain r h1 it1 where st: "soliter_next srch h it = (r, h1, it1)" using prod_cases3 by blast
  then have st': "soliter_next srch (h\<lparr>objs := ob\<rparr>) it = (r, h1\<lparr>objs := ob\<rparr>, it1)"
    by (simp add: soliter_next_objs)
  show ?case
    by (simp add: st st' Suc.IH split: option.splits prod.splits)
qed

text \<open>
  C9. The iterator owns a copy. A setup that succeeds (in \<open>solve\<close> or in \<open>itersolve\<close>)
  was given a list of lists of integers and has added every one of their literals to
  the engine, clause by clause, each as the \<open>int\<close> it converts to (itself, for a valid
  literal); no clause is left open. Whatever the caller then stores in place of its
  objects, every sequence of advances of the returned iterator has the same outcomes
  and ends in the same iterator state.
\<close>

theorem iterator_owns_its_clauses:
  "(setup_picosat h (Some a) = (Some p, h1) \<longrightarrow>
      (\<exists>cls. objs h (clauses a) = py_clauses cls \<and> added p = map (map as_c_int) cls \<and>
             pending p = [] \<and> (valid_clauses cls \<longrightarrow> added p = cls))) \<and>
   (itersolve h (Some a) = (Some it, h1) \<longrightarrow>
      (\<exists>cls. objs h (clauses a) = py_clauses cls \<and>
             added (picosat it) = map (map as_c_int) cls \<and> pending (picosat it) = [] \<and>
             (valid_clauses cls \<longrightarrow> added (picosat it) = cls)) \<and>
      (\<forall>ob n. soliter_advance srch n (h1\<lparr>objs := ob\<rparr>) it =
         (case soliter_advance srch n h1 it of (os, h2, it2) \<Rightarrow> (os, h2\<lparr>objs := ob\<rparr>, it2))))"
proof (intro conjI impI)
  assume "setup_picosat h (Some a) = (Some p, h1)"
  from setup_picosat_loaded[OF this]
  show "\<exists>cls. objs h (clauses a) = py_clauses cls \<and> added p = map (map as_c_int) cls \<and>
             pending p = [] \<and> (valid_clauses cls \<longrightarrow> added p = cls)" by blast
next
  assume i: "itersolve h (Some a) = (Some it, h1)"
  obtain ok h0 where g: "PyObject_GC_New h = (ok, h0)" by force
  have o: "objs h0 = objs h"
    using g by (auto simp: PyObject_GC_New_def host_alloc_def PyErr_NoMemory_def
        split: list.splits bool.splits)
  from i g obtain q where q: "setup_picosat h0 (Some a) = (Some q, h1)" "picosat it = q"
    by (cases ok; cases "setup_picosat h0 (Some a)") (auto simp: itersolve_def split: option.splits)
  from setup_picosat_loaded[OF q(1)] o q(2)
  show "\<exists>cls. objs h (clauses a) = py_clauses cls \<and>
             added (picosat it) = map (map as_c_int) cls \<and> pending (picosat it) = [] \<and>
             (valid_clauses cls \<longrightarrow> added (picosat it) = cls)" by auto
next
  show "\<forall>ob n. soliter_advance srch n (h1\<lparr>objs := ob\<rparr>) it =
         (case soliter_advance srch n h1 it of (os, h2, it2) \<Rightarrow> (os, h2\<lparr>objs := ob\<rparr>, it2))"
    by (simp only: soliter_advance_objs) simp
qed

theorem iterator_owns_its_clauses_witness:
  "added (picosat (the (fst (itersolve (runtime0 (py_clauses [[1, 2]])) (Some default_args)))))
     = [[1, 2]] \<and>
   fst (soliter_advance reference_search 4
         ((snd (itersolve (runtime0 (py_clauses [[1, 2]])) (Some default_args)))
            \<lparr>objs := \<lambda>a. py_clauses [[5], [- 5]]\<rparr>)
         (the (fst (itersolve (runtime0 (py_clauses [[1, 2]])) (Some default_args)))))
     = [Yield (PyList [PyLong 1, PyLong 2]), Yield (PyList [PyLong 1, PyLong (- 2)]),
        Yield (PyList [PyLong (- 1), PyLong 2]), Stop]"
proof -
  let ?hs = "runtime0 (py_clauses [[1, 2]])"
  let ?its = "the (fst (itersolve ?hs (Some default_args)))"
  let ?hi = "snd (itersolve ?hs (Some default_args))"
  let ?os = "[Yield (PyList [PyLong 1, PyLong 2]), Yield (PyList [PyLong 1, PyLong (- 2)]),
        Yield (PyList [PyLong (- 1), PyLong 2]), Stop]"
  have i: "fst (itersolve ?hs (Some default_args)) \<noteq> None" by code_simp
  have i': "itersolve ?hs (Some default_args) = (Some ?its, ?hi)"
    using surjective_pairing[of "itersolve ?hs (Some default_args)"] option.collapse[OF i]
    by (simp only:)
  have v: "valid_clauses [[1, 2]]" by (simp add: valid_clauses_def valid_literal_def)
  have inj: "\<And>cls. py_clauses [[1, 2]] = py_clauses cls \<Longrightarrow> cls = [[1, 2]]"
  proof -
    fix cls assume e: "py_clauses [[1, 2]] = py_clauses cls"
    have "inj PyLong" by (simp add: inj_on_def)
    then have "inj (map PyLong)" by (rule inj_mapI)
    then have "inj py_clause" by (simp add: inj_on_def py_clause_def)
    then have "inj (map py_clause)" by (rule inj_mapI)
    then show "cls = [[1, 2]]" using e by (simp add: py_clauses_def inj_on_def)
  qed
  have run: "fst (soliter_advance reference_search 4 ?hi ?its) = ?os" by code_simp
  note th = iterator_owns_its_clauses[of ?hs default_args "picosat ?its" ?hi ?its reference_search]
  from th i' obtain cls where c: "objs ?hs (clauses default_args) = py_clauses cls"
    "valid_clauses cls \<longrightarrow> added (picosat ?its) = cls" by blast
  from c(1) inj have "cls = [[1, 2]]" by (simp add: runtime0_objs)
  with c(2) v have a: "added (picosat ?its) = [[1, 2]]" by simp
  from th i' have "soliter_advance reference_search 4 (?hi\<lparr>objs := \<lambda>a. py_clauses [[5], [- 5]]\<rparr>) ?its =
         (case soliter_advance reference_search 4 ?hi ?its of
            (os, h2, it2) \<Rightarrow> (os, h2\<lparr>objs := \<lambda>a. py_clauses [[5], [- 5]]\<rparr>, it2))" by blast
  then have "fst (soliter_advance reference_search 4 (?hi\<lparr>objs := \<lambda>a. py_clauses [[5], [- 5]]\<rparr>) ?its)
      = fst (soliter_advance reference_search 4 ?hi ?its)"
    by (simp only: split_beta fst_conv)
  with run a show ?thesis by (simp only:)
qed

section \<open>Further properties of the binding\<close>

text \<open>
  When \<open>PyList_New\<close> fails in \<open>get_solution\<close>, \<open>get_solution\<close> resets the engine and
  returns NULL, and \<open>solve\<close> resets the same engine once more before it returns: one
  session, two resets. In the iterator the second reset comes from the deallocator.
\<close>

theorem failed_list_resets_twice:
  "fst (solve reference_search ((runtime0 (py_clauses [[1]]))\<lparr>alloc_fail := [True]\<rparr>)
         (Some default_args)) = None \<and>
   err (snd (solve reference_search ((runtime0 (py_clauses [[1]]))\<lparr>alloc_fail := [True]\<rparr>)
         (Some default_args))) = Some (MemoryError, [], []) \<and>
   minits (snd (solve reference_search ((runtime0 (py_clauses [[1]]))\<lparr>alloc_fail := [True]\<rparr>)
         (Some default_args))) = 1 \<and>
   resets (snd (solve reference_search ((runtime0 (py_clauses [[1]]))\<lparr>alloc_fail := [True]\<rparr>)
         (Some default_args))) = 2 \<and>
   fst (soliter_advance reference_search 1
         (snd (itersolve ((runtime0 (py_clauses [[1]]))\<lparr>alloc_fail := [False, True]\<rparr>)
                 (Some default_args)))
         (the (fst (itersolve ((runtime0 (py_clauses [[1]]))\<lparr>alloc_fail := [False, True]\<rparr>)
                 (Some default_args)))))
     = [Raise (SystemError, ''failed to create list'', [])] \<and>
   resets (soliter_dealloc
     (fst (snd (soliter_advance reference_search 1
         (snd (itersolve ((runtime0 (py_clauses [[1]]))\<lparr>alloc_fail := [False, True]\<rparr>)
                 (Some default_args)))
         (the (fst (itersolve ((runtime0 (py_clauses [[1]]))\<lparr>alloc_fail := [False, True]\<rparr>)
                 (Some default_args)))))))
     (snd (snd (soliter_advance reference_search 1
         (snd (itersolve ((runtime0 (py_clauses [[1]]))\<lparr>alloc_fail := [False, True]\<rparr>)
                 (Some default_args)))
         (the (fst (itersolve ((runtime0 (py_clauses [[1]]))\<lparr>alloc_fail := [False, True]\<rparr>)
                 (Some default_args)))))))) = 2"
  by code_simp

text \<open>
  A Python integer outside the range of a C \<open>int\<close> reaches the engine as its low 32
  bits: \<open>2^32 + 1\<close> is added as the literal 1, and \<open>2^32\<close> is refused as a zero.
\<close>

theorem wide_literal_truncated:
  "fst (solve reference_search (runtime0 (py_clauses [[4294967297]])) (Some default_args))
     = Some (PyList [PyLong 1]) \<and>
   fst (solve reference_search (runtime0 (py_clauses [[4294967296]])) (Some default_args))
     = None \<and>
   zero_error (snd (solve reference_search (runtime0 (py_clauses [[4294967296]]))
     (Some default_args)))"
  by code_simp

text \<open>
  In an enumeration without failing allocations, every yielded solution costs one
  \<open>PyMem_Malloc\<close>; the cursor's \<open>mem\<close> stays NULL, and the deallocator frees nothing.
  Every access to a buffer is within its bounds, and no block is freed twice.
\<close>

theorem one_buffer_per_yield:
  assumes "itersolve h0 args = (Some it0, h1)" and "alloc_fail h0 = []"
    and "soliter_advance srch n h1 it0 = (os, h2, it2)"
  shows "mallocs h2 = mallocs h0 + yields os \<and> mem it2 = None \<and>
         frees (soliter_dealloc h2 it2) = frees h0 \<and>
         fault (soliter_dealloc h2 it2) = fault h0"
proof -
  note c = itersolve_counts[OF assms(1,2)]
  note f = itersolve_fresh[OF assms(1)]
  from soliter_advance_counts[OF assms(3) c(1) f(1)] c
  show ?thesis by (simp add: soliter_dealloc_def picosat_reset_def)
qed

theorem one_buffer_per_yield_witness:
  "alloc_fail (runtime0 (py_clauses [[1, 2]])) = [] \<and>
   yields (fst (soliter_advance reference_search 4
       (snd (itersolve (runtime0 (py_clauses [[1, 2]])) (Some default_args)))
       (the (fst (itersolve (runtime0 (py_clauses [[1, 2]])) (Some default_args)))))) = 3 \<and>
   mallocs (fst (snd (soliter_advance reference_search 4
       (snd (itersolve (runtime0 (py_clauses [[1, 2]])) (Some default_args)))
       (the (fst (itersolve (runtime0 (py_clauses [[1, 2]])) (Some default_args))))))) = 3 \<and>
   frees (soliter_dealloc
     (fst (snd (soliter_advance reference_search 4
       (snd (itersolve (runtime0 (py_clauses [[1, 2]])) (Some default_args)))
       (the (fst (itersolve (runtime0 (py_clauses [[1, 2]])) (Some default_args)))))))
     (snd (snd (soliter_advance reference_search 4
       (snd (itersolve (runtime0 (py_clauses [[1, 2]])) (Some default_args)))
       (the (fst (itersolve (runtime0 (py_clauses [[1, 2]])) (Some default_args)))))))) = 0 \<and>
   \<not> fault (soliter_dealloc
     (fst (snd (soliter_advance reference_search 4
       (snd (itersolve (runtime0 (py_clauses [[1, 2]])) (Some default_args)))
       (the (fst (itersolve (runtime0 (py_clauses [[1, 2]])) (Some default_args)))))))
     (snd (snd (soliter_advance reference_search 4
       (snd (itersolve (runtime0 (py_clauses [[1, 2]])) (Some default_args)))
       (the (fst (itersolve (runtime0 (py_clauses [[1, 2]])) (Some default_args))))))))"
proof -
  let ?hs = "runtime0 (py_clauses [[1, 2]])"
  let ?its = "the (fst (itersolve ?hs (Some default_args)))"
  let ?hi = "snd (itersolve ?hs (Some default_args))"
  let ?run = "soliter_advance reference_search 4 ?hi ?its"
  have i: "fst (itersolve ?hs (Some default_args)) \<noteq> None" by code_simp
  have i': "itersolve ?hs (Some default_args) = (Some ?its, ?hi)"
    using surjective_pairing[of "itersolve ?hs (Some default_args)"] option.collapse[OF i]
    by (simp only:)
  have al: "alloc_fail ?hs = []" and m0: "mallocs ?hs = 0" and f0: "frees ?hs = 0"
    and fl: "\<not> fault ?hs"
    by (simp_all add: runtime0_def)
  have run: "?run = (fst ?run, fst (snd ?run), snd (snd ?run))" by simp
  have y: "yields (fst ?run) = 3" by code_simp
  from one_buffer_per_yield[OF i' al run] y m0 f0 fl al show ?thesis by simp
qed

end
